theory Spec2Isabelle
  imports Complex_Main
begin

section \<open>Array primitives used by \<open>picasso/imageprocess.py\<close>\<close>

text \<open>
  The module works on numpy arrays of Python floats. Floats are idealised as
  \<^typ>\<open>real\<close> and complex floats as \<^typ>\<open>complex\<close>; a two-dimensional array is the
  list of its rows. An exception is a value of type \<open>error\<close>, returned as \<open>Inl\<close>.
\<close>

type_synonym 'a matrix = "'a list list"

datatype error = ValueError | IndexError | LibraryError

text \<open>\<open>is_matrix h w m\<close>: \<open>m\<close> is an array of shape \<open>(h, w)\<close>.\<close>

definition is_matrix :: "nat \<Rightarrow> nat \<Rightarrow> 'a matrix \<Rightarrow> bool" where
  "is_matrix h w m = (length m = h \<and> list_all (\<lambda>r. length r = w) m)"

text \<open>\<open>arr.shape\<close> of a two-dimensional array, and \<open>arr.size\<close>.\<close>

definition shape :: "'a matrix \<Rightarrow> nat \<times> nat" where
  "shape m = (length m, case m of [] \<Rightarrow> 0 | r # _ \<Rightarrow> length r)"

definition size_of :: "'a matrix \<Rightarrow> nat" where
  "size_of m = length (concat m)"

text \<open>
  A basic slice \<open>xs[lo:hi]\<close>. A negative bound counts from the end and every bound is
  clipped to \<open>0..len(xs)\<close>; the slice is empty when the clipped lower bound is not below
  the clipped upper bound. Note that \<open>-0\<close> is \<open>0\<close>, so \<open>xs[0:-0]\<close> is \<open>xs[0:0]\<close>.
\<close>

definition slice_index :: "nat \<Rightarrow> int \<Rightarrow> nat" where
  "slice_index n k = (if k < 0 then nat (max 0 (int n + k)) else min n (nat k))"

definition py_slice :: "int \<Rightarrow> int \<Rightarrow> 'a list \<Rightarrow> 'a list" where
  "py_slice lo hi xs =
     (let n = length xs; a = slice_index n lo; b = slice_index n hi
      in take (b - a) (drop a xs))"

text \<open>\<open>m[r0:r1, c0:c1]\<close> on a two-dimensional array.\<close>

definition slice2 :: "int \<Rightarrow> int \<Rightarrow> int \<Rightarrow> int \<Rightarrow> 'a matrix \<Rightarrow> 'a matrix" where
  "slice2 r0 r1 c0 c1 m = map (py_slice c0 c1) (py_slice r0 r1 m)"

text \<open>
  \<open>int(n / 2)\<close> for a Python integer \<open>n\<close>: true division followed by truncation
  towards zero (exact as long as \<open>n\<close> is below \<open>2\<^sup>5\<^sup>3\<close> in magnitude).
\<close>

definition int_half :: "int \<Rightarrow> int" where
  "int_half n = (if 0 \<le> n then n div 2 else - ((- n) div 2))"

text \<open>
  \<open>arr.argmax()\<close> on the flattened array: the index of the first occurrence of the
  maximum; an empty array raises \<open>ValueError\<close>.
\<close>

fun argmax_from :: "real list \<Rightarrow> nat \<Rightarrow> nat \<Rightarrow> real \<Rightarrow> nat" where
  "argmax_from [] i bi bv = bi"
| "argmax_from (x # xs) i bi bv =
     (if bv < x then argmax_from xs (Suc i) i x else argmax_from xs (Suc i) bi bv)"

definition argmax :: "real list \<Rightarrow> error + nat" where
  "argmax xs = (case xs of [] \<Rightarrow> Inl ValueError | x # rest \<Rightarrow> Inr (argmax_from rest 1 0 x))"

text \<open>\<open>numpy.unravel_index(arr.argmax(), arr.shape)\<close> for a two-dimensional array.\<close>

definition argmax2 :: "real matrix \<Rightarrow> error + (nat \<times> nat)" where
  "argmax2 m =
     (case argmax (concat m) of
        Inl e \<Rightarrow> Inl e
      | Inr k \<Rightarrow> (let w = snd (shape m) in Inr (k div w, k mod w)))"

text \<open>\<open>arr.max()\<close> and \<open>arr.min()\<close>; both raise \<open>ValueError\<close> on an empty array.\<close>

definition amax :: "real matrix \<Rightarrow> error + real" where
  "amax m = (case concat m of [] \<Rightarrow> Inl ValueError | x # xs \<Rightarrow> Inr (fold max xs x))"

definition amin :: "real matrix \<Rightarrow> error + real" where
  "amin m = (case concat m of [] \<Rightarrow> Inl ValueError | x # xs \<Rightarrow> Inr (fold min xs x))"

text \<open>
  The element-wise product of two two-dimensional arrays with numpy's broadcasting:
  two extents are compatible when they are equal or one of them is 1, and an extent of
  1 is stretched. Incompatible shapes raise \<open>ValueError\<close>.
\<close>

definition broadcast_dim :: "nat \<Rightarrow> nat \<Rightarrow> nat option" where
  "broadcast_dim m n =
     (if m = n then Some m else if m = 1 then Some n else if n = 1 then Some m else None)"

definition multiply :: "complex matrix \<Rightarrow> complex matrix \<Rightarrow> error + complex matrix" where
  "multiply a b =
     (let (h1, w1) = shape a; (h2, w2) = shape b in
      case (broadcast_dim h1 h2, broadcast_dim w1 w2) of
        (Some h, Some w) \<Rightarrow>
          Inr (map (\<lambda>i. map (\<lambda>j. a ! (if h1 = 1 then 0 else i) ! (if w1 = 1 then 0 else j)
                                  * b ! (if h2 = 1 then 0 else i) ! (if w2 = 1 then 0 else j))
                           [0..<w]) [0..<h])
      | _ \<Rightarrow> Inl ValueError)"

text \<open>
  \<open>numpy.roll\<close> along one axis, and \<open>numpy.fft.fftshift\<close>, which rolls every axis by half
  its extent (rounded down).
\<close>

definition roll :: "nat \<Rightarrow> 'a list \<Rightarrow> 'a list" where
  "roll s xs =
     (let n = length xs in
      if n = 0 then xs else drop (n - s mod n) xs @ take (n - s mod n) xs)"

definition fftshift :: "'a matrix \<Rightarrow> 'a matrix" where
  "fftshift m = (let (h, w) = shape m in roll (h div 2) (map (roll (w div 2)) m))"

section \<open>External numerical routines\<close>

text \<open>
  The module calls four routines that are not part of the repository: numpy's \<open>fft2\<close>
  and \<open>ifft2\<close>, lmfit's \<open>Model.fit\<close> and numpy's \<open>linalg.pinv\<close>. They are parameters of
  the model. The transforms are taken as total functions; numpy's raise on an array
  with an extent of 0, and the statements about \<open>xcorr\<close> below are about images with
  positive extents. The fit and the pseudo-inverse may raise. The fit receives the half-width of the coordinate grid, the flattened
  data and the initial values of \<open>a\<close> and \<open>b\<close>; its result carries the best-fit centre
  and lmfit's \<open>success\<close> attribute.
\<close>

record fit_result =
  best_xc :: real
  best_yc :: real
  success :: bool

record numlib =
  fft2 :: "real matrix \<Rightarrow> complex matrix"
  ifft2 :: "complex matrix \<Rightarrow> complex matrix"
  fit :: "int \<Rightarrow> real list \<Rightarrow> real \<Rightarrow> real \<Rightarrow> error + fit_result"
  pinv :: "real matrix \<Rightarrow> error + real matrix"

section \<open>\<open>xcorr\<close>\<close>

definition xcorr :: "'z numlib_scheme \<Rightarrow> real matrix \<Rightarrow> real matrix \<Rightarrow> error + real matrix" where
  "xcorr L imageA imageB =
     (let FimageA = fft2 L imageA;
          CFimageB = map (map cnj) (fft2 L imageB)
      in case multiply FimageA CFimageB of
           Inl e \<Rightarrow> Inl e
         | Inr P \<Rightarrow>
             Inr (map (map (\<lambda>v. v / sqrt (real (size_of imageA))))
                    (fftshift (map (map Re) (ifft2 L P)))))"

section \<open>\<open>get_image_shift\<close>\<close>

text \<open>
  Lines 32 to 38: the offsets \<open>Y_\<close>, \<open>X_\<close> and the search window \<open>XCorr_\<close>. With a
  \<open>roi\<close> the window is \<open>XCorr[Y_:-Y_, X_:-X_]\<close>. The \<open>roi\<close> and the \<open>box\<close> are Python integers
  and \<open>/\<close> is Python 3's true division.
\<close>

definition search_window ::
  "real matrix \<Rightarrow> nat \<Rightarrow> nat \<Rightarrow> int option \<Rightarrow> int \<times> int \<times> real matrix" where
  "search_window XCorr Y X roi =
     (case roi of
        Some r \<Rightarrow>
          (let Y0 = int_half (int Y - r); X0 = int_half (int X - r)
           in (Y0, X0, slice2 Y0 (- Y0) X0 (- X0) XCorr))
      | None \<Rightarrow> (0, 0, XCorr))"

text \<open>Line 45: the fit window, cut from the full surface around the integer peak.\<close>

definition fit_roi :: "real matrix \<Rightarrow> int \<Rightarrow> int \<Rightarrow> int \<Rightarrow> nat \<Rightarrow> nat \<Rightarrow> real matrix" where
  "fit_roi XCorr fit_X Y0 X0 ymax xmax =
     slice2 (int ymax - fit_X + Y0) (int ymax + fit_X + Y0 + 1)
            (int xmax - fit_X + X0) (int xmax + fit_X + X0 + 1) XCorr"

text \<open>
  The function itself, with \<open>display=False\<close> (the plotting branch changes no value).
  Every exception of a step ends the call.
\<close>

definition get_image_shift ::
  "'z numlib_scheme \<Rightarrow> real matrix \<Rightarrow> real matrix \<Rightarrow> int \<Rightarrow> int option \<Rightarrow> error + (real \<times> real)" where
  "get_image_shift L imageA imageB box roi =
     (case xcorr L imageA imageB of
        Inl e \<Rightarrow> Inl e
      | Inr XCorr \<Rightarrow>
          (let (Y, X) = shape imageA;
               (Y0, X0, XCorr0) = search_window XCorr Y X roi;
               fit_X = int_half box
           in case argmax2 XCorr0 of
                Inl e \<Rightarrow> Inl e
              | Inr (ymax, xmax) \<Rightarrow>
                  (let FitROI = fit_roi XCorr fit_X Y0 X0 ymax xmax
                   in case amax FitROI of
                        Inl e \<Rightarrow> Inl e
                      | Inr a0 \<Rightarrow>
                          (case amin FitROI of
                             Inl e \<Rightarrow> Inl e
                           | Inr b0 \<Rightarrow>
                               (case fit L fit_X (concat FitROI) a0 b0 of
                                  Inl e \<Rightarrow> Inl e
                                | Inr results \<Rightarrow>
                                    (let xc = best_xc results + (of_int X0 + real xmax);
                                         yc = best_yc results + (of_int Y0 + real ymax);
                                         xc' = xc - real X / 2;
                                         yc' = yc - real Y / 2
                                     in Inr (- yc', - xc')))))))"

section \<open>\<open>rcc\<close>\<close>

text \<open>\<open>numpy.zeros((r, c))\<close>; a negative extent raises \<open>ValueError\<close>.\<close>

definition zeros :: "int \<Rightarrow> int \<Rightarrow> error + real matrix" where
  "zeros r c =
     (if r < 0 \<or> c < 0 then Inl ValueError
      else Inr (replicate (nat r) (replicate (nat c) 0)))"

text \<open>
  \<open>m[k, c] = v\<close> raises \<open>IndexError\<close> when an index is out of range (the indices here
  are never negative).
\<close>

definition set_item :: "real matrix \<Rightarrow> nat \<Rightarrow> nat \<Rightarrow> real \<Rightarrow> error + real matrix" where
  "set_item m k c v =
     (if k < length m \<and> c < length (m ! k) then Inr (m[k := (m ! k)[c := v]])
      else Inl IndexError)"

text \<open>
  \<open>m[k, lo:hi] = v\<close> writes \<open>v\<close> to the columns of the slice, whose bounds are clipped
  as in a read; only the row index can raise.
\<close>

definition fill_slice :: "int \<Rightarrow> int \<Rightarrow> real \<Rightarrow> real list \<Rightarrow> real list" where
  "fill_slice lo hi v row =
     (let n = length row; a = slice_index n lo; b = slice_index n hi
      in map (\<lambda>c. if a \<le> c \<and> c < b then v else row ! c) [0..<n])"

definition set_slice :: "real matrix \<Rightarrow> nat \<Rightarrow> int \<Rightarrow> int \<Rightarrow> real \<Rightarrow> error + real matrix" where
  "set_slice m k lo hi v =
     (if k < length m then Inr (m[k := fill_slice lo hi v (m ! k)]) else Inl IndexError)"

text \<open>
  The variables the double loop updates. \<open>calls\<close> lists the arguments the optional
  callback has been called with, oldest first; the progress bar only draws.
\<close>

record rcc_state =
  rij :: "real matrix"
  dmat :: "real matrix"
  flag :: nat
  calls :: "nat list"

text \<open>
  Lines 95 to 102, the body of the inner loop for the pair \<open>(i, j)\<close>. \<open>shift i j\<close>
  stands for \<open>get_image_shift(segments[i], segments[j], 5, max_shift)\<close>; the field
  \<open>dmat\<close> is the source's \<open>A\<close>.
\<close>

definition rcc_body ::
  "(nat \<Rightarrow> nat \<Rightarrow> error + (real \<times> real)) \<Rightarrow> bool \<Rightarrow> nat \<Rightarrow> nat \<Rightarrow> rcc_state \<Rightarrow> error + rcc_state" where
  "rcc_body shift callback i j st =
     (case shift i j of
        Inl e \<Rightarrow> Inl e
      | Inr (dyij, dxij) \<Rightarrow>
          (case set_item (rij st) (flag st) 0 dyij of
             Inl e \<Rightarrow> Inl e
           | Inr r1 \<Rightarrow>
               (case set_item r1 (flag st) 1 dxij of
                  Inl e \<Rightarrow> Inl e
                | Inr r2 \<Rightarrow>
                    (case set_slice (dmat st) (flag st) (int i) (int j) 1 of
                       Inl e \<Rightarrow> Inl e
                     | Inr a \<Rightarrow>
                         Inr \<lparr>rij = r2, dmat = a, flag = flag st + 1,
                              calls = (if callback then calls st @ [flag st + 1] else calls st)\<rparr>))))"

text \<open>The inner loop over a list of values of \<open>j\<close>, and the outer loop over \<open>i\<close>.\<close>

fun rcc_inner ::
  "(nat \<Rightarrow> nat \<Rightarrow> error + (real \<times> real)) \<Rightarrow> bool \<Rightarrow> nat \<Rightarrow> nat list \<Rightarrow> rcc_state \<Rightarrow> error + rcc_state" where
  "rcc_inner shift callback i [] st = Inr st"
| "rcc_inner shift callback i (j # js) st =
     (case rcc_body shift callback i j st of
        Inl e \<Rightarrow> Inl e
      | Inr st' \<Rightarrow> rcc_inner shift callback i js st')"

fun rcc_outer ::
  "(nat \<Rightarrow> nat \<Rightarrow> error + (real \<times> real)) \<Rightarrow> bool \<Rightarrow> nat \<Rightarrow> nat list \<Rightarrow> rcc_state \<Rightarrow> error + rcc_state" where
  "rcc_outer shift callback n [] st = Inr st"
| "rcc_outer shift callback n (i # is) st =
     (case rcc_inner shift callback i [i + 1..<n] st of
        Inl e \<Rightarrow> Inl e
      | Inr st' \<Rightarrow> rcc_outer shift callback n is st')"

text \<open>
  Lines 85 to 102: the allocation of \<open>rij\<close> and \<open>A\<close> and the double loop.
  \<open>int(n * (n - 1) / 2)\<close> is exact, the product being even.
\<close>

definition rcc_measure ::
  "(nat \<Rightarrow> nat \<Rightarrow> error + (real \<times> real)) \<Rightarrow> bool \<Rightarrow> nat \<Rightarrow> error + rcc_state" where
  "rcc_measure shift callback n_segments =
     (let n_pairs = int_half (int n_segments * (int n_segments - 1)) in
      case zeros n_pairs 2 of
        Inl e \<Rightarrow> Inl e
      | Inr r0 \<Rightarrow>
          (case zeros n_pairs (int n_segments - 1) of
             Inl e \<Rightarrow> Inl e
           | Inr a0 \<Rightarrow>
               rcc_outer shift callback n_segments [0..<n_segments - 1]
                 \<lparr>rij = r0, dmat = a0, flag = 0, calls = (if callback then [0] else [])\<rparr>))"

text \<open>
  \<open>numpy.dot\<close> of two two-dimensional arrays (\<open>ValueError\<close> when the inner extents
  differ), a column \<open>m[:, c]\<close>, \<open>numpy.cumsum\<close> and \<open>numpy.insert(v, 0, 0)\<close>.
\<close>

definition dot :: "real matrix \<Rightarrow> real matrix \<Rightarrow> error + real matrix" where
  "dot p r =
     (if list_all (\<lambda>row. length row = length r) p
      then Inr (map (\<lambda>row. map (\<lambda>c. sum_list (map (\<lambda>k. row ! k * r ! k ! c) [0..<length r]))
                                [0..<snd (shape r)]) p)
      else Inl ValueError)"

definition column :: "nat \<Rightarrow> real matrix \<Rightarrow> error + real list" where
  "column c m =
     (if list_all (\<lambda>row. c < length row) m then Inr (map (\<lambda>row. row ! c) m)
      else Inl IndexError)"

fun cumsum_from :: "real \<Rightarrow> real list \<Rightarrow> real list" where
  "cumsum_from acc [] = []"
| "cumsum_from acc (x # xs) = (acc + x) # cumsum_from (acc + x) xs"

definition cumsum :: "real list \<Rightarrow> real list" where
  "cumsum xs = cumsum_from 0 xs"

text \<open>Lines 103 to 106: the solve and the trajectory.\<close>

definition rcc_solve :: "'z numlib_scheme \<Rightarrow> rcc_state \<Rightarrow> error + (real list \<times> real list)" where
  "rcc_solve L st =
     (case pinv L (dmat st) of
        Inl e \<Rightarrow> Inl e
      | Inr P \<Rightarrow>
          (case dot P (rij st) of
             Inl e \<Rightarrow> Inl e
           | Inr Dj \<Rightarrow>
               (case column 0 Dj of
                  Inl e \<Rightarrow> Inl e
                | Inr d0 \<Rightarrow>
                    (case column 1 Dj of
                       Inl e \<Rightarrow> Inl e
                     | Inr d1 \<Rightarrow> Inr (0 # cumsum d0, 0 # cumsum d1)))))"

definition rcc ::
  "'z numlib_scheme \<Rightarrow> real matrix list \<Rightarrow> int option \<Rightarrow> bool \<Rightarrow> error + (real list \<times> real list)" where
  "rcc L segments max_shift callback =
     (case rcc_measure (\<lambda>i j. get_image_shift L (segments ! i) (segments ! j) 5 max_shift)
             callback (length segments) of
        Inl e \<Rightarrow> Inl e
      | Inr st \<Rightarrow> rcc_solve L st)"

section \<open>Reference notions for the statements\<close>

text \<open>
  The pairs \<open>(i, j)\<close> with \<open>0 \<le> i < j < n\<close>, \<open>i\<close> ascending in the outer and \<open>j\<close> in the
  inner position, the lexicographic order on pairs, and the row of the design matrix
  that belongs to a pair: 1 in the columns \<open>i..j-1\<close> and 0 elsewhere.
\<close>

definition pairs :: "nat \<Rightarrow> (nat \<times> nat) list" where
  "pairs n = concat (map (\<lambda>i. map (Pair i) [i + 1..<n]) [0..<n - 1])"

definition lex_less :: "nat \<times> nat \<Rightarrow> nat \<times> nat \<Rightarrow> bool" where
  "lex_less p q = (fst p < fst q \<or> (fst p = fst q \<and> snd p < snd q))"

definition design_row :: "nat \<Rightarrow> nat \<times> nat \<Rightarrow> real list" where
  "design_row n p = map (\<lambda>c. if fst p \<le> c \<and> c < snd p then 1 else 0) [0..<n - 1]"

text \<open>
  The body of the inner loop run over a list of pairs. The two nested loops of \<open>rcc\<close>
  are shown below to be this run over \<open>pairs n\<close>.
\<close>

fun rcc_pairs ::
  "(nat \<Rightarrow> nat \<Rightarrow> error + (real \<times> real)) \<Rightarrow> bool \<Rightarrow> (nat \<times> nat) list \<Rightarrow> rcc_state \<Rightarrow> error + rcc_state" where
  "rcc_pairs shift callback [] st = Inr st"
| "rcc_pairs shift callback (p # ps) st =
     (case rcc_body shift callback (fst p) (snd p) st of
        Inl e \<Rightarrow> Inl e
      | Inr st' \<Rightarrow> rcc_pairs shift callback ps st')"

text \<open>
  A routine keeps the shape of every array it is given; two extents are compatible for
  broadcasting; the cross-power product \<open>FA \<cdot> conj FB\<close> of two arrays of shape \<open>(h, w)\<close>.
\<close>

definition keeps_shape :: "('a matrix \<Rightarrow> 'b matrix) \<Rightarrow> bool" where
  "keeps_shape f = (\<forall>h w m. is_matrix h w m \<longrightarrow> is_matrix h w (f m))"

definition compatible :: "nat \<Rightarrow> nat \<Rightarrow> bool" where
  "compatible m n = (m = n \<or> m = 1 \<or> n = 1)"

definition cross_power :: "complex matrix \<Rightarrow> complex matrix \<Rightarrow> nat \<Rightarrow> nat \<Rightarrow> complex matrix" where
  "cross_power FA FB h w = map (\<lambda>i. map (\<lambda>j. FA ! i ! j * cnj (FB ! i ! j)) [0..<w]) [0..<h]"

text \<open>
  The exact two-dimensional discrete Fourier transform and its inverse, which numpy's
  \<open>fft2\<close> and \<open>ifft2\<close> compute up to rounding, and the library that uses them. The fit
  and the pseudo-inverse stay parameters.
\<close>

definition dft2 :: "real matrix \<Rightarrow> complex matrix" where
  "dft2 a =
     (let (h, w) = shape a in
      map (\<lambda>k. map (\<lambda>l.
            sum_list (map (\<lambda>m. sum_list (map (\<lambda>n.
               of_real (a ! m ! n) * cis (- (2 * pi * (real (k * m) / real h + real (l * n) / real w))))
              [0..<w])) [0..<h]))
          [0..<w]) [0..<h])"

definition idft2 :: "complex matrix \<Rightarrow> complex matrix" where
  "idft2 a =
     (let (h, w) = shape a in
      map (\<lambda>k. map (\<lambda>l.
            sum_list (map (\<lambda>m. sum_list (map (\<lambda>n.
               a ! m ! n * cis (2 * pi * (real (k * m) / real h + real (l * n) / real w)))
              [0..<w])) [0..<h]) / of_nat (h * w))
          [0..<w]) [0..<h])"

definition exact_lib ::
  "(int \<Rightarrow> real list \<Rightarrow> real \<Rightarrow> real \<Rightarrow> error + fit_result) \<Rightarrow> (real matrix \<Rightarrow> error + real matrix) \<Rightarrow> numlib" where
  "exact_lib f p = \<lparr>fft2 = dft2, ifft2 = idft2, fit = f, pinv = p\<rparr>"

text \<open>
  Lines 45 to 81 of \<open>get_image_shift\<close> as a function of the integer peak \<open>(py, px)\<close> in
  coordinates of the full surface: the fit window is cut around the peak, fitted, and
  the fitted centre is turned into a shift.
\<close>

definition refine_peak ::
  "'z numlib_scheme \<Rightarrow> real matrix \<Rightarrow> nat \<Rightarrow> nat \<Rightarrow> int \<Rightarrow> int \<Rightarrow> int \<Rightarrow> error + (real \<times> real)" where
  "refine_peak L XCorr Y X fit_X py px =
     (let FitROI = slice2 (py - fit_X) (py + fit_X + 1) (px - fit_X) (px + fit_X + 1) XCorr
      in case amax FitROI of
           Inl e \<Rightarrow> Inl e
         | Inr a0 \<Rightarrow>
             (case amin FitROI of
                Inl e \<Rightarrow> Inl e
              | Inr b0 \<Rightarrow>
                  (case fit L fit_X (concat FitROI) a0 b0 of
                     Inl e \<Rightarrow> Inl e
                   | Inr results \<Rightarrow>
                       Inr (- (best_yc results + of_int py - real Y / 2),
                            - (best_xc results + of_int px - real X / 2)))))"

text \<open>
  The side of the search window cut for a \<open>roi\<close> of \<open>r\<close> from an extent of \<open>n\<close>, and a
  library with the exact transforms whose fit always raises and whose pseudo-inverse
  of every matrix is empty (numpy's result for the empty matrix). Releases of numpy
  that reject an empty matrix raise from the pseudo-inverse instead: \<open>strict_lib\<close>.
\<close>

definition crop_side_of :: "nat \<Rightarrow> int \<Rightarrow> nat" where
  "crop_side_of n r = (if even (int n - r) then nat r else nat r + 1)"

definition blank_lib :: numlib where
  "blank_lib = exact_lib (\<lambda>_ _ _ _. Inl LibraryError) (\<lambda>_. Inr [])"

definition strict_lib :: numlib where
  "strict_lib = exact_lib (\<lambda>_ _ _ _. Inl LibraryError) (\<lambda>_. Inl LibraryError)"

text \<open>
  The dot product of a matrix row with a vector, the product and the transpose of
  matrices given with their extents, and the four Penrose conditions
  \<open>A P A = A\<close>, \<open>P A P = P\<close>, \<open>(A P)\<^sup>T = A P\<close>, \<open>(P A)\<^sup>T = P A\<close> that define the
  pseudo-inverse \<open>P\<close> (of shape \<open>(q, m)\<close>) of a matrix \<open>A\<close> of shape \<open>(m, q)\<close>. The residual of a
  candidate column \<open>v\<close> of increments is the sum of the squared differences between
  \<open>A v\<close> and column \<open>c\<close> of the measurements.
\<close>

definition dotp :: "real list \<Rightarrow> real list \<Rightarrow> real" where
  "dotp row x = sum_list (map (\<lambda>c. row ! c * x ! c) [0..<length row])"

definition mat_mul :: "real matrix \<Rightarrow> real matrix \<Rightarrow> nat \<Rightarrow> nat \<Rightarrow> nat \<Rightarrow> real matrix" where
  "mat_mul a b r k c =
     map (\<lambda>i. map (\<lambda>j. sum_list (map (\<lambda>l. a ! i ! l * b ! l ! j) [0..<k])) [0..<c]) [0..<r]"

definition mat_transpose :: "real matrix \<Rightarrow> nat \<Rightarrow> nat \<Rightarrow> real matrix" where
  "mat_transpose a r c = map (\<lambda>j. map (\<lambda>i. a ! i ! j) [0..<r]) [0..<c]"

definition moore_penrose :: "nat \<Rightarrow> nat \<Rightarrow> real matrix \<Rightarrow> real matrix \<Rightarrow> bool" where
  "moore_penrose m q a p =
     (is_matrix q m p
      \<and> mat_mul (mat_mul a p m q m) a m m q = a
      \<and> mat_mul (mat_mul p a q m q) p q q m = p
      \<and> mat_transpose (mat_mul a p m q m) m m = mat_mul a p m q m
      \<and> mat_transpose (mat_mul p a q m q) q q = mat_mul p a q m q)"

definition residual :: "real matrix \<Rightarrow> real matrix \<Rightarrow> nat \<Rightarrow> real list \<Rightarrow> real" where
  "residual a r c v = sum_list (map (\<lambda>k. (dotp (a ! k) v - r ! k ! c)\<^sup>2) [0..<length a])"

text \<open>
  A fit that always reports the centre \<open>(xc, yc) = (1/4, -1/4)\<close>, and the pseudo-inverse
  of the design matrix of three segments; both are used in examples only.
\<close>

definition quarter_fit :: "int \<Rightarrow> real list \<Rightarrow> real \<Rightarrow> real \<Rightarrow> error + fit_result" where
  "quarter_fit fx d a b = Inr \<lparr>best_xc = 1 / 4, best_yc = - 1 / 4, success = True\<rparr>"

definition pinv3 :: "real matrix" where
  "pinv3 = [[2 / 3, 1 / 3, - 1 / 3], [- 1 / 3, 1 / 3, 2 / 3]]"

section \<open>Shapes, broadcasting and rolling\<close>

lemma is_matrix_nth: "is_matrix h w m \<Longrightarrow> i < h \<Longrightarrow> length (m ! i) = w"
  by (simp add: is_matrix_def list_all_length)

lemma is_matrixI: "length m = h \<Longrightarrow> (\<And>i. i < h \<Longrightarrow> length (m ! i) = w) \<Longrightarrow> is_matrix h w m"
  by (simp add: is_matrix_def list_all_length)

lemma shape_is_matrix: "is_matrix h w m \<Longrightarrow> 0 < h \<Longrightarrow> shape m = (h, w)"
  by (cases m) (auto simp: is_matrix_def shape_def)

lemma size_of_is_matrix: "is_matrix h w m \<Longrightarrow> size_of m = h * w"
  unfolding size_of_def is_matrix_def
proof (induction m arbitrary: h)
  case Nil
  then show ?case by simp
next
  case (Cons r m)
  then have "length (concat m) = length m * w" by simp
  with Cons.prems show ?case by auto
qed

lemma is_matrix_map: "is_matrix h w m \<Longrightarrow> is_matrix h w (map (map f) m)"
  by (simp add: is_matrix_def list_all_length)

lemma list2_nth: "length xs = 2 \<Longrightarrow> xs = [xs ! 0, xs ! 1]"
  by (cases xs; cases "tl xs"; cases "tl (tl xs)") auto

lemma list3_nth: "length xs = 3 \<Longrightarrow> xs = [xs ! 0, xs ! 1, xs ! 2]"
  by (cases xs; cases "tl xs"; cases "tl (tl xs)"; cases "tl (tl (tl xs))") auto

lemma map_nth_upt: "map (\<lambda>k. f (xs ! k)) [0..<length xs] = map f xs"
  by (rule nth_equalityI) auto

lemma broadcast_dim_None: "broadcast_dim m n = None \<longleftrightarrow> \<not> compatible m n"
  by (auto simp: broadcast_dim_def compatible_def)

lemma multiply_error:
  assumes "is_matrix h1 w1 a" "is_matrix h2 w2 b" "0 < h1" "0 < h2"
  shows "multiply a b = Inl ValueError \<longleftrightarrow> \<not> (compatible h1 h2 \<and> compatible w1 w2)"
    and "isl (multiply a b) \<longleftrightarrow> \<not> (compatible h1 h2 \<and> compatible w1 w2)"
  using assms
  by (auto simp: multiply_def shape_is_matrix broadcast_dim_None[symmetric] split: option.splits)

lemma multiply_same:
  assumes "is_matrix h w a" "is_matrix h w b" "0 < h"
  shows "multiply a (map (map cnj) b) = Inr (cross_power a b h w)"
proof -
  have sb: "shape (map (map cnj) b) = (h, w)"
    using assms by (intro shape_is_matrix is_matrix_map)
  have "map (\<lambda>i. map (\<lambda>j. a ! (if h = 1 then 0 else i) ! (if w = 1 then 0 else j)
                * map (map cnj) b ! (if h = 1 then 0 else i) ! (if w = 1 then 0 else j)) [0..<w]) [0..<h]
      = cross_power a b h w"
    unfolding cross_power_def using assms
    by (intro map_cong refl) (auto simp: is_matrix_nth is_matrix_def)
  then show ?thesis
    using assms sb by (simp add: multiply_def shape_is_matrix broadcast_dim_def)
qed

lemma cross_power_is_matrix: "is_matrix h w (cross_power a b h w)"
  by (simp add: cross_power_def is_matrix_def list_all_length)

lemma length_roll: "length (roll s xs) = length xs"
  by (auto simp: roll_def Let_def)

lemma nth_roll:
  assumes "k < length xs"
  shows "roll s xs ! k = xs ! ((k + length xs - s mod length xs) mod length xs)"
proof -
  let ?n = "length xs"
  let ?d = "?n - s mod ?n"
  have n: "0 < ?n" using assms by (cases xs) auto
  have sm: "s mod ?n < ?n" using n by simp
  show ?thesis
  proof (cases "k < s mod ?n")
    case True
    then have "roll s xs ! k = xs ! (?d + k)"
      using n sm by (simp add: roll_def Let_def nth_append)
    moreover have "(k + ?n - s mod ?n) mod ?n = ?d + k"
      using True sm by (simp add: add.commute)
    ultimately show ?thesis by simp
  next
    case False
    then have "roll s xs ! k = xs ! (k - s mod ?n)"
      using n sm assms by (simp add: roll_def Let_def nth_append min_def)
    moreover have "(k + ?n - s mod ?n) mod ?n = k - s mod ?n"
    proof -
      have "k + ?n - s mod ?n = (k - s mod ?n) + ?n" using False sm by simp
      then have "(k + ?n - s mod ?n) mod ?n = ((k - s mod ?n) + ?n) mod ?n" by (simp only:)
      also have "\<dots> = (k - s mod ?n) mod ?n" by simp
      also have "\<dots> = k - s mod ?n" using assms by (simp add: less_imp_diff_less)
      finally show ?thesis .
    qed
    ultimately show ?thesis by simp
  qed
qed

lemma fftshift_is_matrix: "is_matrix h w m \<Longrightarrow> is_matrix h w (fftshift m)"
proof (cases "h = 0")
  case True
  assume "is_matrix h w m"
  with True show ?thesis by (simp add: is_matrix_def fftshift_def shape_def roll_def)
next
  case False
  assume m: "is_matrix h w m"
  have "is_matrix h w (roll (h div 2) (map (roll (w div 2)) m))"
  proof (rule is_matrixI)
    show "length (roll (h div 2) (map (roll (w div 2)) m)) = h"
      using m by (simp add: length_roll is_matrix_def)
  next
    fix i assume "i < h"
    then show "length (roll (h div 2) (map (roll (w div 2)) m) ! i) = w"
      using m False by (simp add: nth_roll length_roll is_matrix_def list_all_length)
  qed
  then show ?thesis using m False by (simp add: fftshift_def shape_is_matrix)
qed

lemma nth_fftshift:
  assumes "is_matrix h w m" "y < h" "x < w"
  shows "fftshift m ! y ! x = m ! ((y + h - h div 2) mod h) ! ((x + w - w div 2) mod w)"
proof -
  have h: "0 < h" using assms by simp
  have lm: "length m = h" using assms by (simp add: is_matrix_def)
  let ?y = "(y + h - h div 2) mod h"
  have y': "?y < h" using h by simp
  have "fftshift m ! y = map (roll (w div 2)) m ! ?y"
    using assms h lm by (simp add: fftshift_def shape_is_matrix nth_roll)
  also have "\<dots> = roll (w div 2) (m ! ?y)" using y' lm by simp
  finally have "fftshift m ! y ! x = roll (w div 2) (m ! ?y) ! x" by simp
  also have "\<dots> = m ! ?y ! ((x + w - w div 2) mod w)"
    using assms y' by (simp add: nth_roll is_matrix_nth)
  finally show ?thesis .
qed

lemma exact_lib_sel:
  "fft2 (exact_lib f p) = dft2" "ifft2 (exact_lib f p) = idft2" "fit (exact_lib f p) = f" "pinv (exact_lib f p) = p"
  by (simp_all add: exact_lib_def)

lemma keeps_shape_dft2: "keeps_shape dft2"
  unfolding keeps_shape_def
proof (intro allI impI)
  fix h w and m :: "real matrix"
  assume m: "is_matrix h w m"
  show "is_matrix h w (dft2 m)"
  proof (cases "h = 0")
    case True
    then show ?thesis using m by (simp add: dft2_def is_matrix_def shape_def)
  next
    case False
    then have "shape m = (h, w)" using m by (simp add: shape_is_matrix)
    then show ?thesis using m by (simp add: dft2_def is_matrix_def list_all_length)
  qed
qed

lemma keeps_shape_idft2: "keeps_shape idft2"
  unfolding keeps_shape_def
proof (intro allI impI)
  fix h w and m :: "complex matrix"
  assume m: "is_matrix h w m"
  show "is_matrix h w (idft2 m)"
  proof (cases "h = 0")
    case True
    then show ?thesis using m by (simp add: idft2_def is_matrix_def shape_def)
  next
    case False
    then have "shape m = (h, w)" using m by (simp add: shape_is_matrix)
    then show ?thesis using m by (simp add: idft2_def is_matrix_def list_all_length)
  qed
qed

lemma dft2_1: "dft2 [[a]] = [[of_real a]]"
  by (simp add: dft2_def shape_def)

lemma idft2_1: "idft2 [[a]] = [[a]]"
  by (simp add: idft2_def shape_def)

section \<open>The correlation surface\<close>

lemma xcorr_equal_shapes:
  assumes A: "is_matrix H W imageA" and B: "is_matrix H W imageB" and H: "0 < H"
    and f: "keeps_shape (fft2 L)" and g: "keeps_shape (ifft2 L)"
  shows "xcorr L imageA imageB =
     Inr (map (map (\<lambda>v. v / sqrt (real (H * W))))
            (fftshift (map (map Re) (ifft2 L (cross_power (fft2 L imageA) (fft2 L imageB) H W)))))"
proof -
  have FA: "is_matrix H W (fft2 L imageA)" and FB: "is_matrix H W (fft2 L imageB)"
    using A B f by (auto simp: keeps_shape_def)
  show ?thesis
    using multiply_same[OF FA FB H] size_of_is_matrix[OF A] by (simp add: xcorr_def)
qed

lemma xcorr_1: "xcorr (exact_lib f p) [[a]] [[b]] = Inr [[a * b]]"
  by (simp add: xcorr_def exact_lib_sel dft2_1 idft2_1 multiply_def shape_def broadcast_dim_def fftshift_def roll_def size_of_def)

text \<open>
  Claim C8. For two images of the same shape \<open>(H, W)\<close> and transforms that keep the
  shape, \<open>xcorr\<close> returns a surface of shape \<open>(H, W)\<close> whose entry \<open>(y, x)\<close> is the real part
  of the inverse transform of the cross-power product \<open>FA \<cdot> conj FB\<close> at the index
  \<open>(y - H div 2, x - W div 2)\<close> taken modulo \<open>(H, W)\<close>, divided by \<open>sqrt (H * W)\<close>. The
  zero-lag entry \<open>(0, 0)\<close> of the inverse transform therefore sits at \<open>(H div 2, W div 2)\<close>.
  The result is a function of the two images alone.
\<close>

theorem xcorr_is_shifted_normalised_inverse_dft:
  assumes A: "is_matrix H W imageA" and B: "is_matrix H W imageB" and H: "0 < H" and W: "0 < W"
    and f: "keeps_shape (fft2 L)" and g: "keeps_shape (ifft2 L)"
  shows "\<exists>S. xcorr L imageA imageB = Inr S \<and> is_matrix H W S
     \<and> (\<forall>y<H. \<forall>x<W. S ! y ! x =
           Re (ifft2 L (cross_power (fft2 L imageA) (fft2 L imageB) H W)
                 ! ((y + H - H div 2) mod H) ! ((x + W - W div 2) mod W)) / sqrt (real (H * W)))
     \<and> S ! (H div 2) ! (W div 2) =
           Re (ifft2 L (cross_power (fft2 L imageA) (fft2 L imageB) H W) ! 0 ! 0) / sqrt (real (H * W))"
proof -
  let ?I = "ifft2 L (cross_power (fft2 L imageA) (fft2 L imageB) H W)"
  let ?R = "map (map Re) ?I"
  let ?S = "map (map (\<lambda>v. v / sqrt (real (H * W)))) (fftshift ?R)"
  have I: "is_matrix H W ?I"
    using g cross_power_is_matrix by (auto simp: keeps_shape_def)
  have R: "is_matrix H W ?R" using I by (rule is_matrix_map)
  have F: "is_matrix H W (fftshift ?R)" using R by (rule fftshift_is_matrix)
  have S: "is_matrix H W ?S" using F by (rule is_matrix_map)
  have lenI: "length ?I = H" using I by (simp add: is_matrix_def)
  have lenF: "length (fftshift ?R) = H" using F by (simp add: is_matrix_def)
  have entry: "?S ! y ! x = Re (?I ! ((y + H - H div 2) mod H) ! ((x + W - W div 2) mod W)) / sqrt (real (H * W))"
    if y: "y < H" and x: "x < W" for y x
  proof -
    let ?y = "(y + H - H div 2) mod H" and ?x = "(x + W - W div 2) mod W"
    have y': "?y < H" and x': "?x < W" using H W by simp_all
    have "?S ! y ! x = fftshift ?R ! y ! x / sqrt (real (H * W))"
      using y x lenF is_matrix_nth[OF F y] by simp
    also have "fftshift ?R ! y ! x = ?R ! ?y ! ?x" using R y x by (rule nth_fftshift)
    also have "\<dots> = Re (?I ! ?y ! ?x)"
      using y' x' lenI is_matrix_nth[OF I y'] by simp
    finally show ?thesis .
  qed
  have centre: "?S ! (H div 2) ! (W div 2) = Re (?I ! 0 ! 0) / sqrt (real (H * W))"
    using entry[of "H div 2" "W div 2"] H W by simp
  have "xcorr L imageA imageB = Inr ?S" using A B H f g by (rule xcorr_equal_shapes)
  then show ?thesis using S entry centre by blast
qed

theorem xcorr_is_shifted_normalised_inverse_dft_witness:
  "\<exists>S. xcorr (exact_lib (\<lambda>_ _ _ _. Inl LibraryError) (\<lambda>_. Inr [])) [[1, 2], [3, 4]] [[0, 1], [0, 0]] = Inr S
     \<and> is_matrix 2 2 S
     \<and> S ! 1 ! 1 = Re (idft2 (cross_power (dft2 [[1, 2], [3, 4]]) (dft2 [[0, 1], [0, 0]]) 2 2) ! 0 ! 0) / sqrt 4"
proof -
  let ?L = "exact_lib (\<lambda>_ _ _ _. Inl LibraryError) (\<lambda>_. Inr [])"
  have "is_matrix 2 2 [[1, 2], [3, 4::real]]" "is_matrix 2 2 [[0, 1], [0, 0::real]]"
    by (simp_all add: is_matrix_def)
  moreover have "keeps_shape (fft2 ?L)" "keeps_shape (ifft2 ?L)"
    by (simp_all add: exact_lib_sel keeps_shape_dft2 keeps_shape_idft2)
  ultimately obtain S where "xcorr ?L [[1, 2], [3, 4]] [[0, 1], [0, 0]] = Inr S" "is_matrix 2 2 S"
     "S ! (2 div 2) ! (2 div 2) =
        Re (ifft2 ?L (cross_power (fft2 ?L [[1, 2], [3, 4]]) (fft2 ?L [[0, 1], [0, 0]]) 2 2) ! 0 ! 0) / sqrt (real (2 * 2))"
    using xcorr_is_shifted_normalised_inverse_dft[of 2 2 "[[1, 2], [3, 4]]" "[[0, 1], [0, 0]]" ?L]
    by auto
  then show ?thesis by (auto simp: exact_lib_sel)
qed

section \<open>The pair loop and the design matrix\<close>

lemma rcc_pairs_append:
  "rcc_pairs shift cb (ps @ qs) st =
     (case rcc_pairs shift cb ps st of Inl e \<Rightarrow> Inl e | Inr st' \<Rightarrow> rcc_pairs shift cb qs st')"
  by (induction ps arbitrary: st) (auto split: sum.splits)

lemma rcc_inner_pairs: "rcc_inner shift cb i js st = rcc_pairs shift cb (map (Pair i) js) st"
  by (induction js arbitrary: st) (auto split: sum.splits)

lemma rcc_outer_pairs:
  "rcc_outer shift cb n is st =
     rcc_pairs shift cb (concat (map (\<lambda>i. map (Pair i) [i + 1..<n]) is)) st"
  by (induction "is" arbitrary: st) (auto simp: rcc_pairs_append rcc_inner_pairs split: sum.splits)

lemma rcc_body_ok:
  assumes "shift i j = Inr (dy, dx)" "flag st < length (rij st)" "flag st < length (dmat st)"
    "length (rij st ! flag st) = 2"
  shows "rcc_body shift cb i j st =
     Inr \<lparr>rij = (rij st)[flag st := [dy, dx]],
          dmat = (dmat st)[flag st := fill_slice (int i) (int j) 1 (dmat st ! flag st)],
          flag = flag st + 1,
          calls = (if cb then calls st @ [flag st + 1] else calls st)\<rparr>"
proof -
  obtain a b where ab: "rij st ! flag st = [a, b]"
    using assms(4) by (cases "rij st ! flag st"; cases "tl (rij st ! flag st)"; auto)
  show ?thesis
    using assms ab by (simp add: rcc_body_def set_item_def set_slice_def)
qed

lemma rcc_pairs_run:
  assumes "list_all (\<lambda>p. shift (fst p) (snd p) = Inr (sh p)) ps"
    "flag st + length ps \<le> length (rij st)" "length (dmat st) = length (rij st)"
    "list_all (\<lambda>r. length r = 2) (rij st)"
  shows "\<exists>st'. rcc_pairs shift cb ps st = Inr st' \<and> flag st' = flag st + length ps
      \<and> rij st' = take (flag st) (rij st) @ map (\<lambda>p. [fst (sh p), snd (sh p)]) ps @ drop (flag st + length ps) (rij st)
      \<and> dmat st' = take (flag st) (dmat st)
           @ map (\<lambda>k. fill_slice (int (fst (ps ! k))) (int (snd (ps ! k))) 1 (dmat st ! (flag st + k))) [0..<length ps]
           @ drop (flag st + length ps) (dmat st)
      \<and> calls st' = calls st @ (if cb then map (\<lambda>k. flag st + k + 1) [0..<length ps] else [])"
  using assms
proof (induction ps arbitrary: st)
  case Nil
  then show ?case by simp
next
  case (Cons p ps)
  obtain dy dx where sh: "sh p = (dy, dx)" by (cases "sh p")
  let ?st1 = "\<lparr>rij = (rij st)[flag st := [dy, dx]],
          dmat = (dmat st)[flag st := fill_slice (int (fst p)) (int (snd p)) 1 (dmat st ! flag st)],
          flag = flag st + 1,
          calls = (if cb then calls st @ [flag st + 1] else calls st)\<rparr>"
  have len: "flag st < length (rij st)" using Cons.prems by simp
  have body: "rcc_body shift cb (fst p) (snd p) st = Inr ?st1"
    using Cons.prems len sh by (intro rcc_body_ok) (auto simp: list_all_length)
  have "list_all (\<lambda>r. length r = 2) (rij ?st1)"
    using Cons.prems(4) len by (auto simp: list_all_length nth_list_update)
  with Cons.prems have "\<exists>st'. rcc_pairs shift cb ps ?st1 = Inr st' \<and> flag st' = flag ?st1 + length ps
      \<and> rij st' = take (flag ?st1) (rij ?st1) @ map (\<lambda>p. [fst (sh p), snd (sh p)]) ps @ drop (flag ?st1 + length ps) (rij ?st1)
      \<and> dmat st' = take (flag ?st1) (dmat ?st1)
           @ map (\<lambda>k. fill_slice (int (fst (ps ! k))) (int (snd (ps ! k))) 1 (dmat ?st1 ! (flag ?st1 + k))) [0..<length ps]
           @ drop (flag ?st1 + length ps) (dmat ?st1)
      \<and> calls st' = calls ?st1 @ (if cb then map (\<lambda>k. flag ?st1 + k + 1) [0..<length ps] else [])"
    by (intro Cons.IH) auto
  then obtain st' where st': "rcc_pairs shift cb ps ?st1 = Inr st'" "flag st' = flag ?st1 + length ps"
     "rij st' = take (flag ?st1) (rij ?st1) @ map (\<lambda>p. [fst (sh p), snd (sh p)]) ps @ drop (flag ?st1 + length ps) (rij ?st1)"
     "dmat st' = take (flag ?st1) (dmat ?st1)
           @ map (\<lambda>k. fill_slice (int (fst (ps ! k))) (int (snd (ps ! k))) 1 (dmat ?st1 ! (flag ?st1 + k))) [0..<length ps]
           @ drop (flag ?st1 + length ps) (dmat ?st1)"
     "calls st' = calls ?st1 @ (if cb then map (\<lambda>k. flag ?st1 + k + 1) [0..<length ps] else [])"
    by blast
  have 1: "rcc_pairs shift cb (p # ps) st = Inr st'" using body st'(1) by simp
  have 2: "flag st' = flag st + length (p # ps)" using st'(2) by simp
  have 3: "rij st' = take (flag st) (rij st) @ map (\<lambda>p. [fst (sh p), snd (sh p)]) (p # ps) @ drop (flag st + length (p # ps)) (rij st)"
    using st'(3) len sh by (simp add: take_Suc_conv_app_nth)
  have len2: "flag st < length (dmat st)" using len Cons.prems by simp
  have 4: "dmat st' = take (flag st) (dmat st)
           @ map (\<lambda>k. fill_slice (int (fst ((p # ps) ! k))) (int (snd ((p # ps) ! k))) 1 (dmat st ! (flag st + k))) [0..<length (p # ps)]
           @ drop (flag st + length (p # ps)) (dmat st)"
    using st'(4) len2 by (simp add: take_Suc_conv_app_nth upt_conv_Cons map_Suc_upt[symmetric] del: upt_Suc)
  have 5: "calls st' = calls st @ (if cb then map (\<lambda>k. flag st + k + 1) [0..<length (p # ps)] else [])"
    using st'(5) by (simp add: upt_conv_Cons map_Suc_upt[symmetric] del: upt_Suc)
  show ?case using 1 2 3 4 5 by blast
qed

lemma set_pairs: "set (pairs n) = {(i, j). i < j \<and> j < n}"
proof -
  have "(i, j) \<in> set (pairs n) \<longleftrightarrow> i < j \<and> j < n" for i j
  proof
    assume "(i, j) \<in> set (pairs n)"
    then show "i < j \<and> j < n" by (auto simp: pairs_def)
  next
    assume ij: "i < j \<and> j < n"
    then show "(i, j) \<in> set (pairs n)" by (auto simp: pairs_def intro!: bexI[of _ i])
  qed
  then show ?thesis by auto
qed

lemma pairs_lex_aux:
  "sorted_wrt (<) is \<Longrightarrow> sorted_wrt lex_less (concat (map (\<lambda>i. map (Pair i) [i + 1..<n]) is))"
proof (induction "is")
  case Nil
  then show ?case by simp
next
  case (Cons i "is")
  have "sorted_wrt lex_less (map (Pair i) [i + 1..<n])"
    by (simp add: sorted_wrt_map lex_less_def)
  moreover have "lex_less p q"
    if "p \<in> set (map (Pair i) [i + 1..<n])" "q \<in> set (concat (map (\<lambda>i. map (Pair i) [i + 1..<n]) is))" for p q
    using that Cons.prems by (auto simp: lex_less_def)
  ultimately show ?case using Cons
    by (simp add: sorted_wrt_append)
qed

lemma pairs_lex: "sorted_wrt lex_less (pairs n)"
  unfolding pairs_def by (rule pairs_lex_aux) simp

lemma length_pairs_aux:
  "m \<le> n \<Longrightarrow> 2 * length (concat (map (\<lambda>i. map (Pair i) [i + 1..<n]) [0..<m])) + m * (m + 1) = 2 * m * n"
proof (induction m)
  case 0
  then show ?case by simp
next
  case (Suc m)
  then show ?case by (simp add: algebra_simps)
qed

lemma length_pairs: "length (pairs n) = n * (n - 1) div 2"
proof (cases n)
  case 0
  then show ?thesis by (simp add: pairs_def)
next
  case (Suc m)
  have "2 * length (pairs n) + m * (m + 1) = 2 * m * n"
    using length_pairs_aux[of m n] Suc by (simp add: pairs_def)
  then have "2 * length (pairs n) = n * (n - 1)" using Suc by (simp add: algebra_simps)
  then show ?thesis by simp
qed

lemma pairs_nth_bounds:
  assumes "k < length (pairs n)"
  shows "fst (pairs n ! k) < snd (pairs n ! k) \<and> snd (pairs n ! k) < n"
proof -
  have "pairs n ! k \<in> set (pairs n)" using assms by simp
  then show ?thesis unfolding set_pairs by (cases "pairs n ! k") auto
qed

lemma pairs_3: "pairs 3 = [(0, 1), (0, 2), (1, 2)]"
  by (simp add: pairs_def upt_rec numeral_3_eq_3)

lemma int_half_pairs: "int_half (int n * (int n - 1)) = int (n * (n - 1) div 2)"
proof (cases n)
  case 0
  then show ?thesis by (simp add: int_half_def)
next
  case (Suc m)
  then have e: "int n * (int n - 1) = int (n * (n - 1))" by (simp add: algebra_simps)
  show ?thesis unfolding e by (simp add: int_half_def zdiv_int)
qed

lemma fill_slice_zeros:
  "fill_slice (int i) (int j) 1 (replicate m 0) = map (\<lambda>c. if i \<le> c \<and> c < j then 1 else 0) [0..<m]"
  by (auto simp: fill_slice_def Let_def slice_index_def)

lemma sum_list_indicator:
  assumes "i \<le> j" "j \<le> m"
  shows "sum_list (map (\<lambda>c. if i \<le> c \<and> c < j then 1 else 0) [0..<m]) = real (j - i)"
proof -
  have "(\<Sum>c\<in>{0..<m}. if c \<in> {i..<j} then 1 else (0::real)) = (\<Sum>c\<in>{0..<m} \<inter> {i..<j}. 1)"
    by (rule sum.inter_restrict[symmetric]) simp
  moreover have "{0..<m} \<inter> {i..<j} = {i..<j}" using assms by auto
  moreover have "sum_list (map (\<lambda>c. if i \<le> c \<and> c < j then 1 else (0::real)) [0..<m])
      = (\<Sum>c\<in>{0..<m}. if c \<in> {i..<j} then 1 else 0)"
    by (simp only: interv_sum_list_conv_sum_set_nat atLeastLessThan_iff set_upt)
  ultimately show ?thesis using assms by simp
qed

lemma design_row_nth: "c < n - 1 \<Longrightarrow> design_row n p ! c = (if fst p \<le> c \<and> c < snd p then 1 else 0)"
  by (simp add: design_row_def)

lemma rcc_measure_ok:
  assumes n: "1 \<le> n" and sh: "list_all (\<lambda>p. shift (fst p) (snd p) = Inr (sh p)) (pairs n)"
  shows "rcc_measure shift cb n =
     Inr \<lparr>rij = map (\<lambda>p. [fst (sh p), snd (sh p)]) (pairs n),
          dmat = map (design_row n) (pairs n),
          flag = n * (n - 1) div 2,
          calls = (if cb then [0..<n * (n - 1) div 2 + 1] else [])\<rparr>"
proof -
  let ?np = "n * (n - 1) div 2"
  let ?st0 = "\<lparr>rij = replicate ?np (replicate 2 0), dmat = replicate ?np (replicate (n - 1) 0),
                flag = 0, calls = (if cb then [0] else [])\<rparr>"
  have "nat (int n - 1) = n - 1" by simp
  then have m: "rcc_measure shift cb n = rcc_pairs shift cb (pairs n) ?st0"
    using n by (simp add: rcc_measure_def int_half_pairs zeros_def rcc_outer_pairs pairs_def Let_def)
  have "\<exists>st'. rcc_pairs shift cb (pairs n) ?st0 = Inr st' \<and> flag st' = flag ?st0 + length (pairs n)
      \<and> rij st' = take (flag ?st0) (rij ?st0) @ map (\<lambda>p. [fst (sh p), snd (sh p)]) (pairs n) @ drop (flag ?st0 + length (pairs n)) (rij ?st0)
      \<and> dmat st' = take (flag ?st0) (dmat ?st0)
           @ map (\<lambda>k. fill_slice (int (fst (pairs n ! k))) (int (snd (pairs n ! k))) 1 (dmat ?st0 ! (flag ?st0 + k))) [0..<length (pairs n)]
           @ drop (flag ?st0 + length (pairs n)) (dmat ?st0)
      \<and> calls st' = calls ?st0 @ (if cb then map (\<lambda>k. flag ?st0 + k + 1) [0..<length (pairs n)] else [])"
    using sh by (intro rcc_pairs_run) (simp_all add: length_pairs list_all_iff)
  then obtain st' where r: "rcc_pairs shift cb (pairs n) ?st0 = Inr st'"
     and f: "flag st' = flag ?st0 + length (pairs n)"
     and rj: "rij st' = take (flag ?st0) (rij ?st0) @ map (\<lambda>p. [fst (sh p), snd (sh p)]) (pairs n) @ drop (flag ?st0 + length (pairs n)) (rij ?st0)"
     and dm: "dmat st' = take (flag ?st0) (dmat ?st0)
           @ map (\<lambda>k. fill_slice (int (fst (pairs n ! k))) (int (snd (pairs n ! k))) 1 (dmat ?st0 ! (flag ?st0 + k))) [0..<length (pairs n)]
           @ drop (flag ?st0 + length (pairs n)) (dmat ?st0)"
     and cl: "calls st' = calls ?st0 @ (if cb then map (\<lambda>k. flag ?st0 + k + 1) [0..<length (pairs n)] else [])"
    by blast
  have st': "rcc_pairs shift cb (pairs n) ?st0 = Inr st'" "flag st' = ?np"
     "rij st' = map (\<lambda>p. [fst (sh p), snd (sh p)]) (pairs n)"
     "dmat st' = map (\<lambda>k. fill_slice (int (fst (pairs n ! k))) (int (snd (pairs n ! k))) 1 (replicate ?np (replicate (n - 1) 0) ! k)) [0..<length (pairs n)]"
     "calls st' = (if cb then 0 # map (\<lambda>k. k + 1) [0..<?np] else [])"
    using r f rj dm cl by (simp_all add: length_pairs)
  have "dmat st' = map (\<lambda>k. design_row n (pairs n ! k)) [0..<length (pairs n)]"
    unfolding st'(4) by (rule map_cong) (auto simp: length_pairs fill_slice_zeros design_row_def)
  then have d: "dmat st' = map (design_row n) (pairs n)"
    by (simp add: map_nth_upt)
  have "0 # map (\<lambda>k. k + 1) [0..<?np] = [0..<?np + 1]"
    by (simp add: upt_conv_Cons map_Suc_upt del: upt_Suc)
  then have c: "calls st' = (if cb then [0..<?np + 1] else [])" using st'(5) by simp
  show ?thesis unfolding m st'(1) using st'(2,3) d c by (cases st') simp
qed

lemma rcc_measure_design:
  assumes n: "2 \<le> n"
    and sh: "list_all (\<lambda>p. shift (fst p) (snd p) = Inr (sh p)) (pairs n)"
  shows "\<exists>st. rcc_measure shift callback n = Inr st
     \<and> is_matrix (n * (n - 1) div 2) (n - 1) (dmat st)
     \<and> is_matrix (n * (n - 1) div 2) 2 (rij st)
     \<and> length (pairs n) = n * (n - 1) div 2
     \<and> set (pairs n) = {(i, j). i < j \<and> j < n}
     \<and> sorted_wrt lex_less (pairs n)
     \<and> (\<forall>k<length (pairs n). \<forall>c<n - 1.
           dmat st ! k ! c = (if fst (pairs n ! k) \<le> c \<and> c < snd (pairs n ! k) then 1 else 0))
     \<and> (\<forall>k<length (pairs n). sum_list (dmat st ! k) = real (snd (pairs n ! k) - fst (pairs n ! k)))
     \<and> (\<forall>k<length (pairs n). rij st ! k = [fst (sh (pairs n ! k)), snd (sh (pairs n ! k))])"
proof -
  let ?st = "\<lparr>rij = map (\<lambda>p. [fst (sh p), snd (sh p)]) (pairs n),
          dmat = map (design_row n) (pairs n),
          flag = n * (n - 1) div 2,
          calls = (if callback then [0..<n * (n - 1) div 2 + 1] else [])\<rparr>"
  have run: "rcc_measure shift callback n = Inr ?st"
    using n sh by (intro rcc_measure_ok) simp_all
  have a: "is_matrix (n * (n - 1) div 2) (n - 1) (dmat ?st)"
    by (simp add: is_matrix_def length_pairs list_all_length design_row_def)
  have r: "is_matrix (n * (n - 1) div 2) 2 (rij ?st)"
    by (simp add: is_matrix_def length_pairs list_all_length)
  have e: "\<forall>k<length (pairs n). \<forall>c<n - 1.
           dmat ?st ! k ! c = (if fst (pairs n ! k) \<le> c \<and> c < snd (pairs n ! k) then 1 else 0)"
    by (simp add: design_row_nth)
  have s: "\<forall>k<length (pairs n). sum_list (dmat ?st ! k) = real (snd (pairs n ! k) - fst (pairs n ! k))"
  proof (intro allI impI)
    fix k assume k: "k < length (pairs n)"
    have "fst (pairs n ! k) \<le> snd (pairs n ! k)" "snd (pairs n ! k) \<le> n - 1"
      using pairs_nth_bounds[OF k] by auto
    then have "sum_list (design_row n (pairs n ! k)) = real (snd (pairs n ! k) - fst (pairs n ! k))"
      unfolding design_row_def by (rule sum_list_indicator)
    then show "sum_list (dmat ?st ! k) = real (snd (pairs n ! k) - fst (pairs n ! k))"
      using k by simp
  qed
  have m: "\<forall>k<length (pairs n). rij ?st ! k = [fst (sh (pairs n ! k)), snd (sh (pairs n ! k))]"
    by simp
  show ?thesis
    using run a r length_pairs[of n] set_pairs[of n] pairs_lex[of n] e s m by blast
qed

section \<open>Slices, the peak search and the search window\<close>

lemma slice_index_le: "slice_index n k \<le> n"
  by (auto simp: slice_index_def)

lemma length_py_slice:
  "length (py_slice lo hi xs) = slice_index (length xs) hi - slice_index (length xs) lo"
  by (auto simp: py_slice_def Let_def slice_index_def)

lemma nth_py_slice:
  "k < length (py_slice lo hi xs) \<Longrightarrow> py_slice lo hi xs ! k = xs ! (slice_index (length xs) lo + k)"
  by (auto simp: py_slice_def Let_def)

lemma slice2_is_matrix:
  assumes "is_matrix h w m"
  shows "is_matrix (slice_index h r1 - slice_index h r0) (slice_index w c1 - slice_index w c0)
           (slice2 r0 r1 c0 c1 m)"
proof -
  have lm: "length m = h" using assms by (simp add: is_matrix_def)
  have rows: "\<forall>r\<in>set m. length r = w" using assms by (simp add: is_matrix_def list_all_iff)
  have "set (py_slice r0 r1 m) \<subseteq> set m"
    unfolding py_slice_def Let_def by (meson set_take_subset set_drop_subset subset_trans)
  then have "\<forall>r\<in>set (py_slice r0 r1 m). length r = w" using rows by blast
  then show ?thesis
    using lm by (simp add: is_matrix_def slice2_def list_all_iff length_py_slice)
qed

lemma slice2_nth:
  assumes "is_matrix h w m" "y < slice_index h r1 - slice_index h r0" "x < slice_index w c1 - slice_index w c0"
  shows "slice2 r0 r1 c0 c1 m ! y ! x = m ! (slice_index h r0 + y) ! (slice_index w c0 + x)"
proof -
  have lm: "length m = h" using assms by (simp add: is_matrix_def)
  have yb: "slice_index h r0 + y < h" using assms(2) slice_index_le[of h r1] by simp
  have lr: "length (m ! (slice_index h r0 + y)) = w" using assms(1) yb by (rule is_matrix_nth)
  have "slice2 r0 r1 c0 c1 m ! y = py_slice c0 c1 (py_slice r0 r1 m ! y)"
    using assms(2) lm by (simp add: slice2_def length_py_slice)
  also have "py_slice r0 r1 m ! y = m ! (slice_index h r0 + y)"
    using assms(2) lm by (simp add: nth_py_slice length_py_slice)
  finally show ?thesis using assms(3) lr by (simp add: nth_py_slice length_py_slice)
qed

lemma slice2_empty_rows: "concat (slice2 0 0 c0 c1 m) = []"
  by (simp add: slice2_def py_slice_def slice_index_def)

lemma slice2_empty_cols: "concat (slice2 r0 r1 0 0 m) = []"
  by (simp add: slice2_def py_slice_def slice_index_def)

lemma fit_roi_peak:
  "fit_roi XCorr f Y0 X0 ymax xmax =
     slice2 (int ymax + Y0 - f) (int ymax + Y0 + f + 1) (int xmax + X0 - f) (int xmax + X0 + f + 1) XCorr"
proof -
  have "int ymax - f + Y0 = int ymax + Y0 - f" "int ymax + f + Y0 + 1 = int ymax + Y0 + f + 1"
    "int xmax - f + X0 = int xmax + X0 - f" "int xmax + f + X0 + 1 = int xmax + X0 + f + 1"
    by simp_all
  then show ?thesis unfolding fit_roi_def by (simp only:)
qed

lemma get_image_shift_refine:
  assumes "xcorr L imageA imageB = Inr XCorr" "shape imageA = (Y, X)"
    "search_window XCorr Y X roi = (Y0, X0, Win)" "argmax2 Win = Inr (ymax, xmax)"
  shows "get_image_shift L imageA imageB box roi =
     refine_peak L XCorr Y X (int_half box) (int ymax + Y0) (int xmax + X0)"
  using assms
  by (simp add: get_image_shift_def refine_peak_def fit_roi_peak Let_def algebra_simps
      split: sum.splits)

lemma get_image_shift_no_peak:
  assumes "xcorr L imageA imageB = Inr XCorr" "shape imageA = (Y, X)"
    "search_window XCorr Y X roi = (Y0, X0, Win)" "argmax2 Win = Inl e"
  shows "get_image_shift L imageA imageB box roi = Inl e"
  using assms by (simp add: get_image_shift_def)

lemma argmax_from_spec:
  "(argmax_from xs i bi bv = bi \<and> (\<forall>x\<in>set xs. x \<le> bv))
   \<or> (\<exists>m<length xs. argmax_from xs i bi bv = i + m \<and> bv < xs ! m
         \<and> (\<forall>j<length xs. xs ! j \<le> xs ! m) \<and> (\<forall>j<m. xs ! j < xs ! m))"
proof (induction xs arbitrary: i bi bv)
  case Nil
  then show ?case by simp
next
  case (Cons x xs)
  show ?case
  proof (cases "bv < x")
    case True
    from Cons.IH[of "Suc i" i x]
    show ?thesis
    proof
      assume a: "argmax_from xs (Suc i) i x = i \<and> (\<forall>y\<in>set xs. y \<le> x)"
      have "\<forall>j<length (x # xs). (x # xs) ! j \<le> x"
        using a by (auto simp: nth_Cons')
      then have "0 < length (x # xs) \<and> argmax_from (x # xs) i bi bv = i + 0 \<and> bv < (x # xs) ! 0
         \<and> (\<forall>j<length (x # xs). (x # xs) ! j \<le> (x # xs) ! 0) \<and> (\<forall>j<0. (x # xs) ! j < (x # xs) ! 0)"
        using a True by simp
      then show ?thesis by blast
    next
      assume "\<exists>m<length xs. argmax_from xs (Suc i) i x = Suc i + m \<and> x < xs ! m
         \<and> (\<forall>j<length xs. xs ! j \<le> xs ! m) \<and> (\<forall>j<m. xs ! j < xs ! m)"
      then obtain m where m: "m < length xs" "argmax_from xs (Suc i) i x = Suc i + m" "x < xs ! m"
         "\<forall>j<length xs. xs ! j \<le> xs ! m" "\<forall>j<m. xs ! j < xs ! m" by blast
      have "Suc m < length (x # xs) \<and> argmax_from (x # xs) i bi bv = i + Suc m \<and> bv < (x # xs) ! Suc m
         \<and> (\<forall>j<length (x # xs). (x # xs) ! j \<le> (x # xs) ! Suc m) \<and> (\<forall>j<Suc m. (x # xs) ! j < (x # xs) ! Suc m)"
        using m True by (auto simp: nth_Cons' less_Suc_eq_0_disj)
      then show ?thesis by blast
    qed
  next
    case False
    from Cons.IH[of "Suc i" bi bv]
    show ?thesis
    proof
      assume "argmax_from xs (Suc i) bi bv = bi \<and> (\<forall>y\<in>set xs. y \<le> bv)"
      then show ?thesis using False by simp
    next
      assume "\<exists>m<length xs. argmax_from xs (Suc i) bi bv = Suc i + m \<and> bv < xs ! m
         \<and> (\<forall>j<length xs. xs ! j \<le> xs ! m) \<and> (\<forall>j<m. xs ! j < xs ! m)"
      then obtain m where m: "m < length xs" "argmax_from xs (Suc i) bi bv = Suc i + m" "bv < xs ! m"
         "\<forall>j<length xs. xs ! j \<le> xs ! m" "\<forall>j<m. xs ! j < xs ! m" by blast
      have "Suc m < length (x # xs) \<and> argmax_from (x # xs) i bi bv = i + Suc m \<and> bv < (x # xs) ! Suc m
         \<and> (\<forall>j<length (x # xs). (x # xs) ! j \<le> (x # xs) ! Suc m) \<and> (\<forall>j<Suc m. (x # xs) ! j < (x # xs) ! Suc m)"
        using m False by (auto simp: nth_Cons' less_Suc_eq_0_disj)
      then show ?thesis by blast
    qed
  qed
qed

lemma argmax_spec:
  assumes "xs \<noteq> []"
  shows "\<exists>k<length xs. argmax xs = Inr k \<and> (\<forall>j<length xs. xs ! j \<le> xs ! k) \<and> (\<forall>j<k. xs ! j < xs ! k)"
proof -
  obtain x rest where xs: "xs = x # rest" using assms by (cases xs) auto
  from argmax_from_spec[of rest 1 0 x]
  show ?thesis
  proof
    assume a: "argmax_from rest 1 0 x = 0 \<and> (\<forall>y\<in>set rest. y \<le> x)"
    then have "\<forall>j<length xs. xs ! j \<le> xs ! 0" unfolding xs by (auto simp: nth_Cons')
    then have "0 < length xs \<and> argmax xs = Inr 0 \<and> (\<forall>j<length xs. xs ! j \<le> xs ! 0) \<and> (\<forall>j<0. xs ! j < xs ! 0)"
      using a xs by (simp add: argmax_def)
    then show ?thesis by blast
  next
    assume "\<exists>m<length rest. argmax_from rest 1 0 x = 1 + m \<and> x < rest ! m
         \<and> (\<forall>j<length rest. rest ! j \<le> rest ! m) \<and> (\<forall>j<m. rest ! j < rest ! m)"
    then obtain m where m: "m < length rest" "argmax_from rest 1 0 x = 1 + m" "x < rest ! m"
         "\<forall>j<length rest. rest ! j \<le> rest ! m" "\<forall>j<m. rest ! j < rest ! m" by blast
    have "Suc m < length xs \<and> argmax xs = Inr (Suc m) \<and> (\<forall>j<length xs. xs ! j \<le> xs ! Suc m) \<and> (\<forall>j<Suc m. xs ! j < xs ! Suc m)"
      unfolding xs using m by (auto simp: argmax_def nth_Cons' less_Suc_eq_0_disj)
    then show ?thesis by blast
  qed
qed

lemma concat_matrix_nth:
  assumes "is_matrix h w m" "y < h" "x < w"
  shows "concat m ! (y * w + x) = m ! y ! x"
  using assms
proof (induction m arbitrary: h y)
  case Nil
  then show ?case by (simp add: is_matrix_def)
next
  case (Cons r m)
  have r: "length r = w" using Cons.prems by (simp add: is_matrix_def)
  show ?case
  proof (cases y)
    case 0
    then show ?thesis using r Cons.prems by (simp add: nth_append)
  next
    case (Suc y')
    have "is_matrix (h - 1) w m" using Cons.prems by (auto simp: is_matrix_def)
    moreover have "y' < h - 1" using Suc Cons.prems by simp
    ultimately have "concat m ! (y' * w + x) = m ! y' ! x" using Cons.prems by (intro Cons.IH)
    then show ?thesis using Suc r by (simp add: nth_append)
  qed
qed

lemma argmax2_spec:
  assumes m: "is_matrix h w m" and h: "0 < h" and w: "0 < w"
  shows "\<exists>y<h. \<exists>x<w. argmax2 m = Inr (y, x)
      \<and> (\<forall>y'<h. \<forall>x'<w. m ! y' ! x' \<le> m ! y ! x)
      \<and> (\<forall>y'<h. \<forall>x'<w. y' * w + x' < y * w + x \<longrightarrow> m ! y' ! x' < m ! y ! x)"
proof -
  have len: "length (concat m) = h * w" using size_of_is_matrix[OF m] by (simp add: size_of_def)
  have ne: "concat m \<noteq> []"
  proof
    assume "concat m = []"
    then have "length (concat m) = 0" by (simp only: list.size)
    with len h w show False by simp
  qed
  from argmax_spec[OF ne] obtain k where k: "k < h * w" "argmax (concat m) = Inr k"
    "\<forall>j<h * w. concat m ! j \<le> concat m ! k" "\<forall>j<k. concat m ! j < concat m ! k"
    using len by auto
  let ?y = "k div w" and ?x = "k mod w"
  have y: "?y < h" using k(1) w by (simp add: less_mult_imp_div_less)
  have x: "?x < w" using w by simp
  have kk: "?y * w + ?x = k" by simp
  have at: "concat m ! k = m ! ?y ! ?x" using concat_matrix_nth[OF m y x] kk by simp
  have r: "argmax2 m = Inr (?y, ?x)"
    using k(2) shape_is_matrix[OF m h] by (simp add: argmax2_def)
  have idx: "y' * w + x' < h * w" if "y' < h" "x' < w" for y' x'
  proof -
    have "y' * w + x' < y' * w + w" using that by simp
    also have "\<dots> = (y' + 1) * w" by simp
    also have "\<dots> \<le> h * w" using that by (intro mult_le_mono1) simp
    finally show ?thesis .
  qed
  have mx: "\<forall>y'<h. \<forall>x'<w. m ! y' ! x' \<le> m ! ?y ! ?x"
  proof (intro allI impI)
    fix y' x' assume a: "y' < h" "x' < w"
    have "concat m ! (y' * w + x') \<le> concat m ! k" using k(3) idx[OF a] by blast
    then show "m ! y' ! x' \<le> m ! ?y ! ?x" using concat_matrix_nth[OF m a] at by simp
  qed
  have first: "\<forall>y'<h. \<forall>x'<w. y' * w + x' < ?y * w + ?x \<longrightarrow> m ! y' ! x' < m ! ?y ! ?x"
  proof (intro allI impI)
    fix y' x' assume a: "y' < h" "x' < w" and b: "y' * w + x' < ?y * w + ?x"
    have "concat m ! (y' * w + x') < concat m ! k" using k(4) b kk by simp
    then show "m ! y' ! x' < m ! ?y ! ?x" using concat_matrix_nth[OF m a] at by simp
  qed
  show ?thesis using y x r mx first by blast
qed

lemma argmax2_empty: "concat m = [] \<Longrightarrow> argmax2 m = Inl ValueError"
  by (simp add: argmax2_def argmax_def del: concat_eq_Nil_conv)

lemma xcorr_shape:
  assumes "is_matrix H W imageA" "is_matrix H W imageB" "0 < H"
    "keeps_shape (fft2 L)" "keeps_shape (ifft2 L)"
  shows "\<exists>XCorr. xcorr L imageA imageB = Inr XCorr \<and> is_matrix H W XCorr"
proof -
  let ?I = "ifft2 L (cross_power (fft2 L imageA) (fft2 L imageB) H W)"
  have "is_matrix H W ?I"
    using assms(5) cross_power_is_matrix by (auto simp: keeps_shape_def)
  then have "is_matrix H W (map (map (\<lambda>v. v / sqrt (real (H * W)))) (fftshift (map (map Re) ?I)))"
    by (intro is_matrix_map fftshift_is_matrix)
  then show ?thesis using xcorr_equal_shapes[OF assms] by simp
qed

lemma crop_extent_pos:
  assumes "1 \<le> d"
  shows "slice_index n (- d) - slice_index n d = n - 2 * nat d" and "2 * nat d < n \<Longrightarrow> slice_index n d = nat d"
  using assms by (auto simp: slice_index_def)

lemma search_window_none: "search_window XCorr Y X None = (0, 0, XCorr)"
  by (simp add: search_window_def)

lemma search_window_some:
  "search_window XCorr Y X (Some r) =
     (int_half (int Y - r), int_half (int X - r),
      slice2 (int_half (int Y - r)) (- int_half (int Y - r)) (int_half (int X - r)) (- int_half (int X - r)) XCorr)"
  by (simp add: search_window_def Let_def)

lemma search_window_empty:
  assumes "int_half (int Y - r) = 0 \<or> int_half (int X - r) = 0"
  shows "concat (snd (snd (search_window XCorr Y X (Some r)))) = []"
  using assms slice2_empty_rows slice2_empty_cols
  by (auto simp: search_window_some simp del: concat_eq_Nil_conv)

lemma get_image_shift_empty_window:
  assumes "shape imageA = (Y, X)" "int_half (int Y - r) = 0 \<or> int_half (int X - r) = 0"
  shows "get_image_shift L imageA imageB box (Some r) = Inl ValueError"
proof (cases "xcorr L imageA imageB")
  case (Inl e)
  then have "e = ValueError"
    by (auto simp: xcorr_def multiply_def Let_def split: prod.splits option.splits sum.splits)
  with Inl show ?thesis by (simp add: get_image_shift_def)
next
  case (Inr XCorr)
  obtain Y0 X0 Win where sw: "search_window XCorr Y X (Some r) = (Y0, X0, Win)"
    by (cases "search_window XCorr Y X (Some r)") auto
  have "concat Win = []" using search_window_empty[OF assms(2), of XCorr] sw by simp
  then have "argmax2 Win = Inl ValueError" by (rule argmax2_empty)
  then show ?thesis using Inr assms(1) sw by (rule get_image_shift_no_peak[rotated 3])
qed

lemma search_window_crop:
  assumes m: "is_matrix H W XCorr" and y: "1 \<le> int_half (int H - r)" and x: "1 \<le> int_half (int W - r)"
  shows "is_matrix (H - 2 * nat (int_half (int H - r))) (W - 2 * nat (int_half (int W - r)))
           (snd (snd (search_window XCorr H W (Some r))))"
    and "\<lbrakk>a < H - 2 * nat (int_half (int H - r)); b < W - 2 * nat (int_half (int W - r))\<rbrakk> \<Longrightarrow>
           snd (snd (search_window XCorr H W (Some r))) ! a ! b
             = XCorr ! (nat (int_half (int H - r)) + a) ! (nat (int_half (int W - r)) + b)"
proof -
  let ?Y0 = "int_half (int H - r)" and ?X0 = "int_half (int W - r)"
  show "is_matrix (H - 2 * nat ?Y0) (W - 2 * nat ?X0) (snd (snd (search_window XCorr H W (Some r))))"
    using slice2_is_matrix[OF m, of "- ?Y0" ?Y0 "- ?X0" ?X0] crop_extent_pos(1)[OF y] crop_extent_pos(1)[OF x]
    by (simp add: search_window_some)
  assume ab: "a < H - 2 * nat ?Y0" "b < W - 2 * nat ?X0"
  then have "2 * nat ?Y0 < H" "2 * nat ?X0 < W" by simp_all
  then have lo: "slice_index H ?Y0 = nat ?Y0" "slice_index W ?X0 = nat ?X0"
    using crop_extent_pos(2)[OF y] crop_extent_pos(2)[OF x] by simp_all
  have a': "a < slice_index H (- ?Y0) - slice_index H ?Y0"
    using ab(1) crop_extent_pos(1)[OF y, of H] by (simp only:)
  have b': "b < slice_index W (- ?X0) - slice_index W ?X0"
    using ab(2) crop_extent_pos(1)[OF x, of W] by (simp only:)
  have "slice2 ?Y0 (- ?Y0) ?X0 (- ?X0) XCorr ! a ! b
      = XCorr ! (slice_index H ?Y0 + a) ! (slice_index W ?X0 + b)"
    using m a' b' by (rule slice2_nth)
  then show "snd (snd (search_window XCorr H W (Some r))) ! a ! b = XCorr ! (nat ?Y0 + a) ! (nat ?X0 + b)"
    unfolding lo by (simp add: search_window_some)
qed

lemma crop_side:
  assumes "0 \<le> r" "2 \<le> int H - r"
  shows "H - 2 * nat (int_half (int H - r)) = (if even (int H - r) then nat r else nat r + 1)"
proof -
  define q where "q = (int H - r) div 2"
  have ih: "int_half (int H - r) = q" using assms by (simp add: int_half_def q_def)
  have q: "0 \<le> q" "2 * q \<le> int H" using assms unfolding q_def by linarith+
  have e: "int (H - 2 * nat q) = int H - 2 * q" using q by simp
  show ?thesis
  proof (cases "even (int H - r)")
    case True
    then have "int H - r = 2 * q" unfolding q_def by simp
    then have "int (H - 2 * nat q) = r" using e by simp
    then have "H - 2 * nat q = nat r" by linarith
    then show ?thesis using True ih by simp
  next
    case False
    then have "int H - r = 2 * q + 1" unfolding q_def by (metis odd_two_times_div_two_succ)
    then have "int (H - 2 * nat q) = r + 1" using e by simp
    then have "H - 2 * nat q = nat r + 1" using assms(1) by linarith
    then show ?thesis using False ih by simp
  qed
qed

lemma shape_replicate: "0 < h \<Longrightarrow> shape (replicate h (replicate w x)) = (h, w)"
  by (cases h) (simp_all add: shape_def)

lemma is_matrix_replicate: "is_matrix h w (replicate h (replicate w x))"
  by (simp add: is_matrix_def list_all_length)

lemma sum_list_zeros: "(\<And>x. x \<in> set xs \<Longrightarrow> f x = 0) \<Longrightarrow> sum_list (map f xs) = (0::'a::comm_monoid_add)"
  by (induction xs) auto

lemma dft2_zero:
  assumes "0 < h"
  shows "dft2 (replicate h (replicate w 0)) = replicate h (replicate w 0)"
proof -
  have "sum_list (map (\<lambda>m. sum_list (map (\<lambda>n.
               of_real (replicate h (replicate w (0::real)) ! m ! n) * cis (- (2 * pi * (real (k * m) / real h + real (l * n) / real w))))
              [0..<w])) [0..<h]) = 0" for k l
    by (intro sum_list_zeros) simp
  then show ?thesis
    using assms by (simp add: dft2_def shape_replicate map_replicate_const)
qed

lemma idft2_zero:
  assumes "0 < h"
  shows "idft2 (replicate h (replicate w 0)) = replicate h (replicate w 0)"
proof -
  have "sum_list (map (\<lambda>m. sum_list (map (\<lambda>n.
               replicate h (replicate w (0::complex)) ! m ! n * cis (2 * pi * (real (k * m) / real h + real (l * n) / real w)))
              [0..<w])) [0..<h]) = 0" for k l
    by (intro sum_list_zeros) simp
  then show ?thesis
    using assms by (simp add: idft2_def shape_replicate map_replicate_const)
qed

lemma roll_replicate: "roll s (replicate n x) = replicate n x"
  by (simp add: roll_def Let_def replicate_add[symmetric])

lemma fftshift_replicate: "fftshift (replicate h (replicate w x)) = replicate h (replicate w x)"
proof (cases "h = 0")
  case True
  then show ?thesis by (simp add: fftshift_def shape_def roll_def)
next
  case False
  then show ?thesis by (simp add: fftshift_def shape_replicate roll_replicate)
qed

lemma cross_power_zero:
  "cross_power (replicate h (replicate w 0)) (replicate h (replicate w 0)) h w = replicate h (replicate w 0)"
proof -
  have "map (\<lambda>j. replicate h (replicate w (0::complex)) ! i ! j * cnj (replicate h (replicate w 0) ! i ! j)) [0..<w]
      = replicate w 0" if "i < h" for i
  proof -
    have "map (\<lambda>j. replicate h (replicate w (0::complex)) ! i ! j * cnj (replicate h (replicate w 0) ! i ! j)) [0..<w]
      = map (\<lambda>j. 0) [0..<w]"
      using that by (intro map_cong refl) simp
    then show ?thesis by (simp add: map_replicate_const)
  qed
  then have "cross_power (replicate h (replicate w 0)) (replicate h (replicate w 0)) h w
      = map (\<lambda>i. replicate w 0) [0..<h]"
    unfolding cross_power_def by (intro map_cong refl) simp
  then show ?thesis by (simp add: map_replicate_const)
qed

lemma xcorr_zero:
  assumes "0 < h"
  shows "xcorr (exact_lib f p) (replicate h (replicate w 0)) (replicate h (replicate w 0))
           = Inr (replicate h (replicate w 0))"
proof -
  have "xcorr (exact_lib f p) (replicate h (replicate w 0)) (replicate h (replicate w 0)) =
     Inr (map (map (\<lambda>v. v / sqrt (real (h * w))))
            (fftshift (map (map Re) (ifft2 (exact_lib f p)
               (cross_power (fft2 (exact_lib f p) (replicate h (replicate w 0)))
                  (fft2 (exact_lib f p) (replicate h (replicate w 0))) h w)))))"
    using assms
    by (intro xcorr_equal_shapes is_matrix_replicate) (simp_all add: exact_lib_sel keeps_shape_dft2 keeps_shape_idft2)
  then show ?thesis
    using assms by (simp add: exact_lib_sel dft2_zero cross_power_zero idft2_zero fftshift_replicate)
qed

lemma rep4: "replicate 4 x = [x, x, x, x]"
  by (simp add: numeral_Bit0 replicate_add)

lemma zero4_is_matrix: "is_matrix 4 4 (replicate 4 (replicate 4 (0::real)))"
  by (rule is_matrix_replicate)

lemma blank_lib_keeps:
  "keeps_shape (fft2 blank_lib)" "keeps_shape (ifft2 blank_lib)"
  by (simp_all add: blank_lib_def exact_lib_sel keeps_shape_dft2 keeps_shape_idft2)

lemma window_no_rows:
  assumes "int_half (int Y - r) = 0"
  shows "search_window XCorr Y X (Some r) = (0, int_half (int X - r), [])"
  using assms by (simp add: search_window_some slice2_def py_slice_def slice_index_def)

text \<open>
  Claim C9 as stated fails in its second part: for two 4 by 4 images and a \<open>roi\<close> of 3
  the difference \<open>H - roi = 1\<close> is odd, yet the offset \<open>int(1 / 2)\<close> is zero, the search
  window \<open>XCorr[0:-0, 0:-0]\<close> is empty and not of side \<open>roi + 1 = 4\<close>, and the call raises
  \<open>ValueError\<close>.
\<close>

theorem roi_odd_counterexample:
  "xcorr blank_lib (replicate 4 (replicate 4 0)) (replicate 4 (replicate 4 0)) = Inr (replicate 4 (replicate 4 0))
   \<and> odd (int 4 - 3)
   \<and> search_window (replicate 4 (replicate 4 0)) 4 4 (Some 3) = (0, 0, [])
   \<and> length ([] :: real matrix) \<noteq> nat 3 + 1
   \<and> get_image_shift blank_lib (replicate 4 (replicate 4 0)) (replicate 4 (replicate 4 0)) 5 (Some 3) = Inl ValueError"
proof -
  have x: "xcorr blank_lib (replicate 4 (replicate 4 0)) (replicate 4 (replicate 4 0)) = Inr (replicate 4 (replicate 4 0))"
    unfolding blank_lib_def by (rule xcorr_zero) simp
  have h: "int_half (int 4 - 3) = 0" by (simp add: int_half_def)
  have w: "search_window (replicate 4 (replicate 4 0)) 4 4 (Some 3) = (0, 0, [])"
    using window_no_rows[OF h, of "replicate 4 (replicate 4 0)" 4] h by simp
  have s: "shape (replicate 4 (replicate 4 (0::real))) = (4, 4)" by (rule shape_replicate) simp
  have g: "get_image_shift blank_lib (replicate 4 (replicate 4 0)) (replicate 4 (replicate 4 0)) 5 (Some 3) = Inl ValueError"
    by (rule get_image_shift_empty_window[OF s]) (simp add: int_half_def)
  show ?thesis using x w g by simp
qed

text \<open>
  Claim C9, amended. With a \<open>roi\<close> of \<open>r\<close> whose offset \<open>Y_ = int((H - r) / 2)\<close> or
  \<open>X_ = int((W - r) / 2)\<close> is zero (in particular when \<open>\<lfloor>(H - r) / 2\<rfloor>\<close> or \<open>\<lfloor>(W - r) / 2\<rfloor>\<close> is
  zero), the crop \<open>XCorr[Y_:-Y_, X_:-X_]\<close> has a zero upper bound, the search window is empty
  and the call raises \<open>ValueError\<close> at \<open>argmax\<close>; the full surface is not searched. For
  \<open>r \<ge> 0\<close> and both differences at least 2, the window has side \<open>r\<close> in a dimension where
  the difference of extent and \<open>r\<close> is even and side \<open>r + 1\<close> where it is odd; an odd
  \<open>H - r \<ge> 3\<close> gives \<open>H - 2 \<lfloor>(H - r) / 2\<rfloor> = r + 1\<close> rows. For the odd difference
  \<open>H - r = 1\<close> the offset is zero and the window has no row, not \<open>r + 1\<close> rows.
\<close>

theorem roi_crop_edge_cases:
  assumes A: "is_matrix H W imageA" and B: "is_matrix H W imageB" and H: "0 < H"
    and f: "keeps_shape (fft2 L)" and g: "keeps_shape (ifft2 L)" and W: "0 < W"
  shows "\<exists>XCorr Y0 X0 Win.
       xcorr L imageA imageB = Inr XCorr \<and> search_window XCorr H W (Some r) = (Y0, X0, Win)
     \<and> Y0 = int_half (int H - r) \<and> X0 = int_half (int W - r)
     \<and> ((int H - r) div 2 = 0 \<or> (int W - r) div 2 = 0 \<or> Y0 = 0 \<or> X0 = 0 \<longrightarrow>
           concat Win = [] \<and> get_image_shift L imageA imageB box (Some r) = Inl ValueError)
     \<and> (0 \<le> r \<and> 2 \<le> int H - r \<and> 2 \<le> int W - r \<longrightarrow>
           is_matrix (crop_side_of H r) (crop_side_of W r) Win)
     \<and> (0 \<le> r \<and> odd (int H - r) \<and> 3 \<le> int H - r \<longrightarrow>
           length Win = nat r + 1 \<and> nat r + 1 = H - 2 * nat ((int H - r) div 2))
     \<and> (int H - r = 1 \<longrightarrow> odd (int H - r) \<and> Y0 = 0 \<and> Win = [] \<and> length Win \<noteq> nat r + 1)"
proof -
  obtain XCorr where X: "xcorr L imageA imageB = Inr XCorr" "is_matrix H W XCorr"
    using xcorr_shape[OF A B H f g] by blast
  obtain Y0 X0 Win where sw: "search_window XCorr H W (Some r) = (Y0, X0, Win)"
    by (cases "search_window XCorr H W (Some r)") auto
  have win: "Win = snd (snd (search_window XCorr H W (Some r)))" using sw by simp
  have off: "Y0 = int_half (int H - r)" "X0 = int_half (int W - r)"
    using sw by (simp_all add: search_window_some)
  have sh: "shape imageA = (H, W)" using A H by (rule shape_is_matrix)
  have 1: "concat Win = [] \<and> get_image_shift L imageA imageB box (Some r) = Inl ValueError"
    if z: "(int H - r) div 2 = 0 \<or> (int W - r) div 2 = 0 \<or> Y0 = 0 \<or> X0 = 0"
  proof -
    have hz: "int_half (int H - r) = 0 \<or> int_half (int W - r) = 0"
      using z off by (auto simp: int_half_def)
    show ?thesis
      using search_window_empty[OF hz, of XCorr] get_image_shift_empty_window[OF sh hz] win by simp
  qed
  have 2: "is_matrix (crop_side_of H r) (crop_side_of W r) Win"
    if b: "0 \<le> r \<and> 2 \<le> int H - r \<and> 2 \<le> int W - r"
  proof -
    have r: "0 \<le> r" using b by simp
    have "1 \<le> (int H - r) div 2" "1 \<le> (int W - r) div 2" using b by linarith+
    then have y: "1 \<le> int_half (int H - r)" and x: "1 \<le> int_half (int W - r)"
      using b by (simp_all add: int_half_def)
    show ?thesis
      using search_window_crop(1)[OF X(2) y x] crop_side[OF r, of H] crop_side[OF r, of W] b win
      by (simp add: crop_side_of_def)
  qed
  have 3: "length Win = nat r + 1 \<and> nat r + 1 = H - 2 * nat ((int H - r) div 2)"
    if o: "0 \<le> r \<and> odd (int H - r) \<and> 3 \<le> int H - r"
  proof -
    have r: "0 \<le> r" using o by simp
    have ih: "int_half (int H - r) = (int H - r) div 2" using o by (simp add: int_half_def)
    have "1 \<le> (int H - r) div 2" using o by linarith
    then have y: "1 \<le> int_half (int H - r)" using o by (simp add: int_half_def)
    have rows: "slice_index H (- int_half (int H - r)) - slice_index H (int_half (int H - r))
         = H - 2 * nat (int_half (int H - r))"
      by (rule crop_extent_pos(1)[OF y])
    have lX: "length XCorr = H" using X(2) by (simp add: is_matrix_def)
    have "length Win = H - 2 * nat (int_half (int H - r))"
      unfolding win search_window_some using rows lX by (simp add: slice2_def length_py_slice)
    moreover have "H - 2 * nat (int_half (int H - r)) = nat r + 1"
      using crop_side[OF r, of H] o by simp
    ultimately show ?thesis using ih by simp
  qed
  have 4: "odd (int H - r) \<and> Y0 = 0 \<and> Win = [] \<and> length Win \<noteq> nat r + 1"
    if e: "int H - r = 1"
  proof -
    have h: "int_half (int H - r) = 0" using e by (simp add: int_half_def)
    have "Win = []" using window_no_rows[OF h, of XCorr W] win by simp
    then show ?thesis using e off h by simp
  qed
  show ?thesis using X(1) sw off 1 2 3 4 by blast
qed

theorem roi_crop_edge_cases_witness:
  "get_image_shift blank_lib (replicate 4 (replicate 4 0)) (replicate 4 (replicate 4 0)) 5 (Some 4) = Inl ValueError
   \<and> (\<exists>XCorr Win. xcorr blank_lib (replicate 4 (replicate 4 0)) (replicate 4 (replicate 4 0)) = Inr XCorr
        \<and> search_window XCorr 4 4 (Some 1) = (1, 1, Win) \<and> length Win = 2)
   \<and> (\<exists>XCorr X0. xcorr blank_lib (replicate 4 (replicate 4 0)) (replicate 4 (replicate 4 0)) = Inr XCorr
        \<and> search_window XCorr 4 4 (Some 3) = (0, X0, []))"
proof -
  have p: "0 < (4::nat)" by simp
  note t = roi_crop_edge_cases[OF zero4_is_matrix zero4_is_matrix p blank_lib_keeps p]
  have "get_image_shift blank_lib (replicate 4 (replicate 4 0)) (replicate 4 (replicate 4 0)) 5 (Some 4) = Inl ValueError"
    using t[of 4 5] by auto
  moreover obtain XCorr Y0 X0 Win where
    w: "xcorr blank_lib (replicate 4 (replicate 4 0)) (replicate 4 (replicate 4 0)) = Inr XCorr"
       "search_window XCorr 4 4 (Some 1) = (Y0, X0, Win)" "length Win = nat 1 + 1"
       "Y0 = int_half (int 4 - 1)" "X0 = int_half (int 4 - 1)"
    using t[of 1 5] by auto
  moreover have "Y0 = 1" "X0 = 1" using w(4,5) by (simp_all add: int_half_def)
  moreover obtain XCorr' Y0' X0' Win' where
    v: "xcorr blank_lib (replicate 4 (replicate 4 0)) (replicate 4 (replicate 4 0)) = Inr XCorr'"
       "search_window XCorr' 4 4 (Some 3) = (Y0', X0', Win')" "Y0' = 0" "Win' = []"
    using t[of 3 5] by auto
  ultimately show ?thesis by auto
qed

section \<open>The peak, the fit window and the returned shift\<close>

text \<open>
  Claim C6 as stated fails: for 4 by 4 images and a \<open>roi\<close> of 1 the search window is 2 by 2,
  not 1 by 1.
\<close>

theorem roi_window_counterexample:
  "xcorr blank_lib (replicate 4 (replicate 4 0)) (replicate 4 (replicate 4 0)) = Inr (replicate 4 (replicate 4 0))
   \<and> search_window (replicate 4 (replicate 4 0)) 4 4 (Some 1) = (1, 1, [[0, 0], [0, 0]])
   \<and> \<not> is_matrix 1 1 [[0, 0], [0, 0::real]]"
proof -
  have "xcorr blank_lib (replicate 4 (replicate 4 0)) (replicate 4 (replicate 4 0)) = Inr (replicate 4 (replicate 4 0))"
    unfolding blank_lib_def by (rule xcorr_zero) simp
  moreover have "search_window (replicate 4 (replicate 4 0)) 4 4 (Some 1) = (1, 1, [[0, 0], [0, 0]])"
    by (simp add: search_window_some int_half_def rep4 slice2_def py_slice_def slice_index_def)
  moreover have "\<not> is_matrix 1 1 [[0, 0], [0, 0::real]]" by (simp add: is_matrix_def)
  ultimately show ?thesis by blast
qed

text \<open>
  Claim C6, amended. When both offsets \<open>Y0 = \<lfloor>(H - r) / 2\<rfloor>\<close> and \<open>X0 = \<lfloor>(W - r) / 2\<rfloor>\<close> are at
  least one (and \<open>r \<ge> 1\<close>), the search window is the centred crop of rows \<open>Y0..H-Y0-1\<close> and
  columns \<open>X0..W-X0-1\<close> of the surface; its side is \<open>r\<close> where the difference of extent and
  \<open>r\<close> is even and \<open>r + 1\<close> where it is odd. The argmax is found in this window, it is a
  maximum of the surface over the window, and everything after the search depends on
  it only through the full-surface coordinates \<open>(ymax + Y0, xmax + X0)\<close>. Without a \<open>roi\<close> the
  whole surface is searched.
\<close>

theorem search_restricted_to_crop:
  assumes A: "is_matrix H W imageA" and B: "is_matrix H W imageB" and H: "0 < H" and W: "0 < W"
    and f: "keeps_shape (fft2 L)" and g: "keeps_shape (ifft2 L)"
    and r: "1 \<le> r" and Y0: "Y0 = (int H - r) div 2" and X0: "X0 = (int W - r) div 2"
    and y: "1 \<le> Y0" and x: "1 \<le> X0"
  shows "\<exists>XCorr Win ymax xmax ymax' xmax'.
       xcorr L imageA imageB = Inr XCorr
     \<and> search_window XCorr H W (Some r) = (Y0, X0, Win)
     \<and> is_matrix (crop_side_of H r) (crop_side_of W r) Win
     \<and> crop_side_of H r = H - 2 * nat Y0 \<and> crop_side_of W r = W - 2 * nat X0
     \<and> (\<forall>a<crop_side_of H r. \<forall>b<crop_side_of W r. Win ! a ! b = XCorr ! (nat Y0 + a) ! (nat X0 + b))
     \<and> argmax2 Win = Inr (ymax, xmax) \<and> ymax < crop_side_of H r \<and> xmax < crop_side_of W r
     \<and> (\<forall>a<crop_side_of H r. \<forall>b<crop_side_of W r.
            XCorr ! (nat Y0 + a) ! (nat X0 + b) \<le> XCorr ! (nat Y0 + ymax) ! (nat X0 + xmax))
     \<and> get_image_shift L imageA imageB box (Some r)
           = refine_peak L XCorr H W (int_half box) (int ymax + Y0) (int xmax + X0)
     \<and> search_window XCorr H W None = (0, 0, XCorr)
     \<and> argmax2 XCorr = Inr (ymax', xmax') \<and> ymax' < H \<and> xmax' < W
     \<and> (\<forall>a<H. \<forall>b<W. XCorr ! a ! b \<le> XCorr ! ymax' ! xmax')
     \<and> get_image_shift L imageA imageB box None
           = refine_peak L XCorr H W (int_half box) (int ymax') (int xmax')"
proof -
  obtain XCorr where X: "xcorr L imageA imageB = Inr XCorr" "is_matrix H W XCorr"
    using xcorr_shape[OF A B H f g] by blast
  have sh: "shape imageA = (H, W)" using A H by (rule shape_is_matrix)
  have dH: "2 \<le> int H - r" and dW: "2 \<le> int W - r" using y x Y0 X0 by linarith+
  have r0: "0 \<le> r" using r by simp
  have ihY: "int_half (int H - r) = Y0" and ihX: "int_half (int W - r) = X0"
    using dH dW Y0 X0 by (simp_all add: int_half_def)
  define Win where "Win = snd (snd (search_window XCorr H W (Some r)))"
  have sw: "search_window XCorr H W (Some r) = (Y0, X0, Win)"
    unfolding Win_def by (simp add: search_window_some ihY ihX)
  have y': "1 \<le> int_half (int H - r)" and x': "1 \<le> int_half (int W - r)"
    using y x ihY ihX by simp_all
  have sH: "crop_side_of H r = H - 2 * nat Y0" and sW: "crop_side_of W r = W - 2 * nat X0"
    using crop_side[OF r0 dH] crop_side[OF r0 dW] ihY ihX by (simp_all add: crop_side_of_def)
  have pH: "0 < crop_side_of H r" and pW: "0 < crop_side_of W r"
    using r by (auto simp: crop_side_of_def)
  have wm: "is_matrix (crop_side_of H r) (crop_side_of W r) Win"
    using search_window_crop(1)[OF X(2) y' x'] unfolding Win_def sH sW ihY ihX .
  have we: "Win ! a ! b = XCorr ! (nat Y0 + a) ! (nat X0 + b)"
    if "a < crop_side_of H r" "b < crop_side_of W r" for a b
    using search_window_crop(2)[OF X(2) y' x', of a b] that unfolding Win_def sH sW ihY ihX by simp
  obtain ymax xmax where am: "ymax < crop_side_of H r" "xmax < crop_side_of W r"
      "argmax2 Win = Inr (ymax, xmax)"
      "\<forall>a<crop_side_of H r. \<forall>b<crop_side_of W r. Win ! a ! b \<le> Win ! ymax ! xmax"
    using argmax2_spec[OF wm pH pW] by blast
  have mx: "\<forall>a<crop_side_of H r. \<forall>b<crop_side_of W r.
            XCorr ! (nat Y0 + a) ! (nat X0 + b) \<le> XCorr ! (nat Y0 + ymax) ! (nat X0 + xmax)"
    using am(4) we am(1,2) by simp
  have gs: "get_image_shift L imageA imageB box (Some r)
           = refine_peak L XCorr H W (int_half box) (int ymax + Y0) (int xmax + X0)"
    using X(1) sh sw am(3) by (rule get_image_shift_refine)
  obtain ymax' xmax' where am': "ymax' < H" "xmax' < W" "argmax2 XCorr = Inr (ymax', xmax')"
      "\<forall>a<H. \<forall>b<W. XCorr ! a ! b \<le> XCorr ! ymax' ! xmax'"
    using argmax2_spec[OF X(2) H W] by blast
  have gn: "get_image_shift L imageA imageB box None
           = refine_peak L XCorr H W (int_half box) (int ymax') (int xmax')"
    using get_image_shift_refine[OF X(1) sh search_window_none am'(3), of box] by simp
  show ?thesis
    using X(1) sw wm sH sW we am(1,2,3) mx gs search_window_none[of XCorr H W] am'(1,2,3,4) gn
    by blast
qed

theorem search_restricted_to_crop_witness:
  "\<exists>XCorr Win ymax xmax.
       xcorr blank_lib (replicate 4 (replicate 4 0)) (replicate 4 (replicate 4 0)) = Inr XCorr
     \<and> search_window XCorr 4 4 (Some 1) = (1, 1, Win) \<and> is_matrix 2 2 Win
     \<and> argmax2 Win = Inr (ymax, xmax) \<and> ymax < 2 \<and> xmax < 2
     \<and> get_image_shift blank_lib (replicate 4 (replicate 4 0)) (replicate 4 (replicate 4 0)) 5 (Some 1)
           = refine_peak blank_lib XCorr 4 4 2 (int ymax + 1) (int xmax + 1)"
proof -
  have c: "crop_side_of 4 1 = 2" by (simp add: crop_side_of_def)
  have h: "int_half 5 = 2" by (simp add: int_half_def)
  obtain XCorr Win ymax xmax where
    "xcorr blank_lib (replicate 4 (replicate 4 0)) (replicate 4 (replicate 4 0)) = Inr XCorr"
    "search_window XCorr 4 4 (Some 1) = (1, 1, Win)" "is_matrix (crop_side_of 4 1) (crop_side_of 4 1) Win"
    "argmax2 Win = Inr (ymax, xmax)" "ymax < crop_side_of 4 1" "xmax < crop_side_of 4 1"
    "get_image_shift blank_lib (replicate 4 (replicate 4 0)) (replicate 4 (replicate 4 0)) 5 (Some 1)
           = refine_peak blank_lib XCorr 4 4 (int_half 5) (int ymax + 1) (int xmax + 1)"
    using search_restricted_to_crop[OF zero4_is_matrix zero4_is_matrix _ _ blank_lib_keeps, of 1 1 1 5]
    by auto
  then show ?thesis unfolding c h by blast
qed

lemma fit_extent:
  assumes "0 \<le> p" "p < int n" "0 \<le> f"
  shows "slice_index n (p + f + 1) - slice_index n (p - f) \<le> nat (2 * f + 1)"
    and "p < f \<or> int n \<le> p + f \<Longrightarrow> slice_index n (p + f + 1) - slice_index n (p - f) < nat (2 * f + 1)"
  using assms by (auto simp: slice_index_def)

lemma size_of_slice2:
  assumes "is_matrix h w m"
  shows "size_of (slice2 r0 r1 c0 c1 m)
     = (slice_index h r1 - slice_index h r0) * (slice_index w c1 - slice_index w c0)"
  using slice2_is_matrix[OF assms] by (rule size_of_is_matrix)

lemma fit_window_small:
  assumes m: "is_matrix H W XCorr" and py: "0 \<le> py" "py < int H" and px: "0 \<le> px" "px < int W"
    and f: "0 \<le> f" and border: "py < f \<or> int H \<le> py + f \<or> px < f \<or> int W \<le> px + f"
  shows "size_of (slice2 (py - f) (py + f + 1) (px - f) (px + f + 1) XCorr) < nat ((2 * f + 1) * (2 * f + 1))"
proof -
  let ?K = "nat (2 * f + 1)"
  let ?a = "slice_index H (py + f + 1) - slice_index H (py - f)"
  let ?b = "slice_index W (px + f + 1) - slice_index W (px - f)"
  have K: "0 < ?K" using f by simp
  have a: "?a \<le> ?K" and b: "?b \<le> ?K" using fit_extent(1) py px f by simp_all
  have "?a < ?K \<or> ?b < ?K" using border fit_extent(2) py px f by blast
  then have "?a * ?b < ?K * ?K"
  proof
    assume "?a < ?K"
    then have "?a * ?b \<le> ?a * ?K" "?a * ?K < ?K * ?K" using b K by simp_all
    then show ?thesis by linarith
  next
    assume "?b < ?K"
    then have "?a * ?b \<le> ?K * ?b" "?K * ?b < ?K * ?K" using a K by simp_all
    then show ?thesis by linarith
  qed
  moreover have "?K * ?K = nat ((2 * f + 1) * (2 * f + 1))" using f by (simp add: nat_mult_distrib)
  ultimately show ?thesis using size_of_slice2[OF m] by simp
qed

lemma amax_Max: "concat m \<noteq> [] \<Longrightarrow> amax m = Inr (Max (set (concat m)))"
proof (cases "concat m")
  case Nil
  assume "concat m \<noteq> []"
  with Nil show ?thesis by (simp only:)
next
  case (Cons a list)
  have "fold max list a = Max (set (a # list))" by (rule Max.set_eq_fold[symmetric])
  then show ?thesis using Cons by (simp add: amax_def)
qed

lemma amin_Min: "concat m \<noteq> [] \<Longrightarrow> amin m = Inr (Min (set (concat m)))"
proof (cases "concat m")
  case Nil
  assume "concat m \<noteq> []"
  with Nil show ?thesis by (simp only:)
next
  case (Cons a list)
  have "fold min list a = Min (set (a # list))" by (rule Min.set_eq_fold[symmetric])
  then show ?thesis using Cons by (simp add: amin_def)
qed

lemma amax_empty: "concat m = [] \<Longrightarrow> amax m = Inl ValueError"
  by (simp add: amax_def del: concat_eq_Nil_conv)

lemma refine_peak_cases:
  "refine_peak L XCorr Y X f py px =
     (let data = concat (slice2 (py - f) (py + f + 1) (px - f) (px + f + 1) XCorr) in
      if data = [] then Inl ValueError
      else case fit L f data (Max (set data)) (Min (set data)) of
             Inl e \<Rightarrow> Inl e
           | Inr res \<Rightarrow> Inr (- (best_yc res + of_int py - real Y / 2),
                              - (best_xc res + of_int px - real X / 2)))"
proof (cases "concat (slice2 (py - f) (py + f + 1) (px - f) (px + f + 1) XCorr) = []")
  case True
  then show ?thesis by (simp add: refine_peak_def amax_empty Let_def del: concat_eq_Nil_conv)
next
  case False
  then show ?thesis by (simp add: refine_peak_def amax_Max amin_Min Let_def del: concat_eq_Nil_conv)
qed

lemma rep6: "replicate 6 x = [x, x, x, x, x, x]"
  by (simp add: numeral_Bit0 numeral_Bit1 replicate_add)

lemma zero6_peak: "argmax2 (replicate 6 (replicate 6 0)) = Inr (0, 0)"
  by (simp add: rep6 argmax2_def argmax_def shape_def)

lemma zero6_fit_roi: "fit_roi (replicate 6 (replicate 6 0)) 2 0 0 0 0 = []"
  by (simp add: fit_roi_def slice2_def py_slice_def slice_index_def)

lemma blank_lib_fit: "fit blank_lib fx d a b = Inl LibraryError"
  by (simp add: blank_lib_def exact_lib_sel)

lemma one_pixel_shift:
  "get_image_shift (exact_lib (\<lambda>_ _ _ _. Inr \<lparr>best_xc = xc, best_yc = yc, success = s\<rparr>) p) [[a]] [[b]] 5 None
     = Inr (- (yc - 1 / 2), - (xc - 1 / 2))"
  by (simp add: get_image_shift_def xcorr_1 shape_def search_window_def int_half_def argmax2_def argmax_def
     fit_roi_def slice2_def py_slice_def slice_index_def amax_def amin_def exact_lib_sel)

text \<open>
  Claim C10 as stated fails in its last part: for two blank 6 by 6 images the peak is at
  \<open>(0, 0)\<close>, the fit window \<open>XCorr[-2:3, -2:3]\<close> is empty and the call raises \<open>ValueError\<close> at
  \<open>FitROI.max()\<close>; no fit is performed (the fit of this library would raise another
  error).
\<close>

theorem fit_window_counterexample:
  "xcorr blank_lib (replicate 6 (replicate 6 0)) (replicate 6 (replicate 6 0)) = Inr (replicate 6 (replicate 6 0))
   \<and> argmax2 (replicate 6 (replicate 6 0)) = Inr (0, 0)
   \<and> fit_roi (replicate 6 (replicate 6 0)) (int_half 5) 0 0 0 0 = []
   \<and> get_image_shift blank_lib (replicate 6 (replicate 6 0)) (replicate 6 (replicate 6 0)) 5 None = Inl ValueError
   \<and> fit blank_lib (int_half 5) [] 0 0 = Inl LibraryError"
proof -
  have x: "xcorr blank_lib (replicate 6 (replicate 6 0)) (replicate 6 (replicate 6 0)) = Inr (replicate 6 (replicate 6 0))"
    unfolding blank_lib_def by (rule xcorr_zero) simp
  have h: "int_half 5 = 2" by (simp add: int_half_def)
  have s: "shape (replicate 6 (replicate 6 (0::real))) = (6, 6)" by (rule shape_replicate) simp
  have "get_image_shift blank_lib (replicate 6 (replicate 6 0)) (replicate 6 (replicate 6 0)) 5 None
      = refine_peak blank_lib (replicate 6 (replicate 6 0)) 6 6 (int_half 5) (int 0 + 0) (int 0 + 0)"
    using x s search_window_none zero6_peak by (rule get_image_shift_refine)
  also have "\<dots> = Inl ValueError"
    using zero6_fit_roi by (simp add: refine_peak_cases h fit_roi_def Let_def)
  finally show ?thesis using x zero6_peak zero6_fit_roi blank_lib_fit h by simp
qed

text \<open>
  Claim C10, amended. When the integer peak \<open>(py, px)\<close> lies within \<open>f = \<lfloor>box / 2\<rfloor>\<close> pixels of
  the border of the surface, a bound of the fit-window slice is negative or exceeds the
  extent, and the window has fewer than \<open>(2 f + 1)\<^sup>2\<close> elements, so it is not the window
  centred on the peak. If it is empty the call raises \<open>ValueError\<close> and no fit runs;
  otherwise the fit runs on this smaller window and its result is used as usual.
\<close>

theorem fit_window_at_border:
  assumes X: "xcorr L imageA imageB = Inr XCorr" and m: "is_matrix H W XCorr" and sh: "shape imageA = (H, W)"
    and sw: "search_window XCorr H W roi = (Y0, X0, Win)" and am: "argmax2 Win = Inr (ymax, xmax)"
    and py: "py = int ymax + Y0" "0 \<le> py" "py < int H"
    and px: "px = int xmax + X0" "0 \<le> px" "px < int W"
    and f: "f = int_half box" "0 \<le> f"
    and border: "py < f \<or> int H \<le> py + f \<or> px < f \<or> int W \<le> px + f"
  shows "\<exists>FitROI. FitROI = fit_roi XCorr f Y0 X0 ymax xmax
     \<and> FitROI = slice2 (py - f) (py + f + 1) (px - f) (px + f + 1) XCorr
     \<and> (py - f < 0 \<or> int H < py + f + 1 \<or> px - f < 0 \<or> int W < px + f + 1)
     \<and> size_of FitROI < nat ((2 * f + 1) * (2 * f + 1))
     \<and> get_image_shift L imageA imageB box roi =
         (if concat FitROI = [] then Inl ValueError
          else case fit L f (concat FitROI) (Max (set (concat FitROI))) (Min (set (concat FitROI))) of
                 Inl e \<Rightarrow> Inl e
               | Inr res \<Rightarrow> Inr (- (best_yc res + of_int py - real H / 2),
                                  - (best_xc res + of_int px - real W / 2)))"
proof -
  let ?F = "slice2 (py - f) (py + f + 1) (px - f) (px + f + 1) XCorr"
  have 1: "?F = fit_roi XCorr f Y0 X0 ymax xmax" unfolding fit_roi_peak py(1) px(1) ..
  have 2: "py - f < 0 \<or> int H < py + f + 1 \<or> px - f < 0 \<or> int W < px + f + 1"
    using border by linarith
  have 3: "size_of ?F < nat ((2 * f + 1) * (2 * f + 1))"
    using m py(2,3) px(2,3) f(2) border by (rule fit_window_small)
  have "get_image_shift L imageA imageB box roi = refine_peak L XCorr H W f py px"
    unfolding f(1) py(1) px(1) using X sh sw am by (rule get_image_shift_refine)
  then have 4: "get_image_shift L imageA imageB box roi =
         (if concat ?F = [] then Inl ValueError
          else case fit L f (concat ?F) (Max (set (concat ?F))) (Min (set (concat ?F))) of
                 Inl e \<Rightarrow> Inl e
               | Inr res \<Rightarrow> Inr (- (best_yc res + of_int py - real H / 2),
                                  - (best_xc res + of_int px - real W / 2)))"
    by (simp add: refine_peak_cases Let_def del: concat_eq_Nil_conv)
  show ?thesis using 1 2 3 4 by (intro exI[of _ ?F] conjI) simp_all
qed

theorem fit_window_at_border_witness:
  "size_of (fit_roi (replicate 6 (replicate 6 0)) 2 0 0 0 0) < 25
   \<and> get_image_shift blank_lib (replicate 6 (replicate 6 0)) (replicate 6 (replicate 6 0)) 5 None = Inl ValueError
   \<and> size_of (fit_roi [[6]] 2 0 0 0 0) < 25
   \<and> get_image_shift (exact_lib (\<lambda>_ _ _ _. Inr \<lparr>best_xc = 1 / 4, best_yc = - 1 / 4, success = True\<rparr>) (\<lambda>_. Inr []))
        [[2]] [[3]] 5 None = Inr (3 / 4, 1 / 4)"
proof -
  let ?Z = "replicate 6 (replicate 6 (0::real))"
  let ?L = "exact_lib (\<lambda>_ _ _ _. Inr \<lparr>best_xc = 1 / 4, best_yc = - 1 / 4, success = True\<rparr>) (\<lambda>_. Inr [])"
  have h: "2 = int_half 5" by (simp add: int_half_def)
  have x: "xcorr blank_lib ?Z ?Z = Inr ?Z" unfolding blank_lib_def by (rule xcorr_zero) simp
  have s: "shape ?Z = (6, 6)" by (rule shape_replicate) simp
  have "\<exists>FitROI. FitROI = fit_roi ?Z 2 0 0 0 0
     \<and> FitROI = slice2 (0 - 2) (0 + 2 + 1) (0 - 2) (0 + 2 + 1) ?Z
     \<and> (0 - 2 < (0::int) \<or> int 6 < 0 + 2 + 1 \<or> 0 - 2 < (0::int) \<or> int 6 < 0 + 2 + 1)
     \<and> size_of FitROI < nat ((2 * 2 + 1) * (2 * 2 + 1))
     \<and> get_image_shift blank_lib ?Z ?Z 5 None =
         (if concat FitROI = [] then Inl ValueError
          else case fit blank_lib 2 (concat FitROI) (Max (set (concat FitROI))) (Min (set (concat FitROI))) of
                 Inl e \<Rightarrow> Inl e
               | Inr res \<Rightarrow> Inr (- (best_yc res + of_int 0 - real 6 / 2),
                                  - (best_xc res + of_int 0 - real 6 / 2)))"
    using x is_matrix_replicate s search_window_none zero6_peak
    by (rule fit_window_at_border) (simp_all add: h[symmetric])
  then have 1: "size_of (fit_roi ?Z 2 0 0 0 0) < 25
     \<and> get_image_shift blank_lib ?Z ?Z 5 None = Inl ValueError"
    using zero6_fit_roi by simp
  have x1: "xcorr ?L [[2]] [[3]] = Inr [[6]]" using xcorr_1[of _ _ 2 3] by simp
  have "\<exists>FitROI. FitROI = fit_roi [[6]] 2 0 0 0 0
     \<and> FitROI = slice2 (0 - 2) (0 + 2 + 1) (0 - 2) (0 + 2 + 1) [[6]]
     \<and> (0 - 2 < (0::int) \<or> int 1 < 0 + 2 + 1 \<or> 0 - 2 < (0::int) \<or> int 1 < 0 + 2 + 1)
     \<and> size_of FitROI < nat ((2 * 2 + 1) * (2 * 2 + 1))
     \<and> get_image_shift ?L [[2]] [[3]] 5 None =
         (if concat FitROI = [] then Inl ValueError
          else case fit ?L 2 (concat FitROI) (Max (set (concat FitROI))) (Min (set (concat FitROI))) of
                 Inl e \<Rightarrow> Inl e
               | Inr res \<Rightarrow> Inr (- (best_yc res + of_int 0 - real 1 / 2),
                                  - (best_xc res + of_int 0 - real 1 / 2)))"
    using x1
    by (rule fit_window_at_border[where ymax = 0 and xmax = 0 and ?Y0.0 = 0 and ?X0.0 = 0 and Win = "[[6]]"])
       (simp_all add: h[symmetric] is_matrix_def shape_def search_window_none argmax2_def argmax_def)
  then have 2: "size_of (fit_roi [[6]] 2 0 0 0 0) < 25
     \<and> get_image_shift ?L [[2]] [[3]] 5 None = Inr (3 / 4, 1 / 4)"
    by (simp add: fit_roi_def slice2_def py_slice_def slice_index_def exact_lib_sel)
  show ?thesis using 1 2 by simp
qed

text \<open>
  Claim C5 as stated fails: a fit that reports no convergence (\<open>success = False\<close>) still
  yields a shift and no error.
\<close>

theorem fit_divergence_counterexample:
  "get_image_shift (exact_lib (\<lambda>_ _ _ _. Inr \<lparr>best_xc = 1 / 4, best_yc = - 1 / 4, success = False\<rparr>) (\<lambda>_. Inr []))
      [[2]] [[3]] 5 None = Inr (3 / 4, 1 / 4)"
  by (simp add: one_pixel_shift)

text \<open>
  Claim C5, amended. \<open>get_image_shift\<close> never reads the convergence status of the fit:
  changing the \<open>success\<close> attribute of every fit result to any value leaves the result of
  the call unchanged. The best-fit values are used whether or not the fit converged.
\<close>

theorem fit_success_ignored:
  "get_image_shift (L\<lparr>fit := \<lambda>fx d a b. map_sum id (\<lambda>res. res\<lparr>success := s\<rparr>) (fit L fx d a b)\<rparr>)
       imageA imageB box roi
     = get_image_shift L imageA imageB box roi"
proof -
  have x: "xcorr (L\<lparr>fit := g\<rparr>) imageA imageB = xcorr L imageA imageB" for g
    by (simp add: xcorr_def split: sum.splits)
  show ?thesis
    unfolding get_image_shift_def x
    by (auto simp: Let_def split: sum.splits prod.splits)
qed

theorem fit_success_ignored_witness:
  "get_image_shift
     ((exact_lib (\<lambda>_ _ _ _. Inr \<lparr>best_xc = 1 / 4, best_yc = - 1 / 4, success = True\<rparr>) (\<lambda>_. Inr []))
        \<lparr>fit := \<lambda>fx d a b. map_sum id (\<lambda>res. res\<lparr>success := False\<rparr>)
            (fit (exact_lib (\<lambda>_ _ _ _. Inr \<lparr>best_xc = 1 / 4, best_yc = - 1 / 4, success = True\<rparr>) (\<lambda>_. Inr []))
               fx d a b)\<rparr>)
     [[2]] [[3]] 5 None = Inr (3 / 4, 1 / 4)"
  by (simp add: fit_success_ignored one_pixel_shift)

lemma window_peak:
  assumes X: "is_matrix H W XCorr" and H: "0 < H" and W: "0 < W"
    and roi: "case roi of None \<Rightarrow> True | Some r \<Rightarrow> 1 \<le> r \<and> 2 \<le> int H - r \<and> 2 \<le> int W - r"
  shows "\<exists>Y0 X0 Win ymax xmax. search_window XCorr H W roi = (Y0, X0, Win)
     \<and> argmax2 Win = Inr (ymax, xmax)"
proof (cases roi)
  case None
  obtain y x where "argmax2 XCorr = Inr (y, x)" using argmax2_spec[OF X H W] by blast
  then show ?thesis using None by (simp add: search_window_none)
next
  case (Some r)
  have r: "1 \<le> r" "2 \<le> int H - r" "2 \<le> int W - r" using roi Some by simp_all
  have "1 \<le> (int H - r) div 2" "1 \<le> (int W - r) div 2" using r by linarith+
  then have y: "1 \<le> int_half (int H - r)" and x: "1 \<le> int_half (int W - r)"
    using r by (simp_all add: int_half_def)
  let ?Win = "snd (snd (search_window XCorr H W (Some r)))"
  have m: "is_matrix (H - 2 * nat (int_half (int H - r))) (W - 2 * nat (int_half (int W - r))) ?Win"
    by (rule search_window_crop(1)[OF X y x])
  have r0: "0 \<le> r" using r(1) by simp
  have h: "0 < H - 2 * nat (int_half (int H - r))" using crop_side[OF r0 r(2)] r(1) by simp
  have w: "0 < W - 2 * nat (int_half (int W - r))" using crop_side[OF r0 r(3)] r(1) by simp
  obtain ym xm where "argmax2 ?Win = Inr (ym, xm)" using argmax2_spec[OF m h w] by blast
  then show ?thesis using Some by (simp add: search_window_some)
qed

text \<open>
  Claim C7. For an image of shape \<open>(H, W)\<close>, \<open>get_image_shift\<close> returns a pair exactly
  when the correlation, the search for the brightest pixel, the cut of the fit window
  and the fit all return, and the pair is then \<open>(-(y_peak - H / 2), -(x_peak - W / 2))\<close>,
  first the shift in \<open>y\<close> and then the shift in \<open>x\<close>, where the sub-pixel peak is the
  argmax of the search window plus the offsets of the window plus the fitted centre.
  For two non-empty images of the same shape, transforms that keep the shape and no
  \<open>roi\<close> (or a \<open>roi\<close> \<open>r \<ge> 1\<close> with \<open>H - r \<ge> 2\<close> and \<open>W - r \<ge> 2\<close>) the correlation and the
  search always return, and the call returns this pair unless the fit window is empty
  or the fit raises.
\<close>

theorem shift_is_negated_peak_offset:
  assumes s: "shape imageA = (H, W)"
  shows "(get_image_shift L imageA imageB box roi = Inr (sy, sx) \<longleftrightarrow>
          (\<exists>XCorr Y0 X0 Win ymax xmax a0 b0 res.
             xcorr L imageA imageB = Inr XCorr \<and> search_window XCorr H W roi = (Y0, X0, Win)
           \<and> argmax2 Win = Inr (ymax, xmax)
           \<and> amax (fit_roi XCorr (int_half box) Y0 X0 ymax xmax) = Inr a0
           \<and> amin (fit_roi XCorr (int_half box) Y0 X0 ymax xmax) = Inr b0
           \<and> fit L (int_half box) (concat (fit_roi XCorr (int_half box) Y0 X0 ymax xmax)) a0 b0 = Inr res
           \<and> sy = - ((best_yc res + (of_int Y0 + real ymax)) - real H / 2)
           \<and> sx = - ((best_xc res + (of_int X0 + real xmax)) - real W / 2)))
     \<and> (is_matrix H W imageA \<and> is_matrix H W imageB \<and> 0 < H \<and> 0 < W
          \<and> keeps_shape (fft2 L) \<and> keeps_shape (ifft2 L)
          \<and> (case roi of None \<Rightarrow> True | Some r \<Rightarrow> 1 \<le> r \<and> 2 \<le> int H - r \<and> 2 \<le> int W - r) \<longrightarrow>
          (\<exists>XCorr Y0 X0 Win ymax xmax.
             xcorr L imageA imageB = Inr XCorr \<and> search_window XCorr H W roi = (Y0, X0, Win)
           \<and> argmax2 Win = Inr (ymax, xmax)
           \<and> get_image_shift L imageA imageB box roi =
               (let data = concat (fit_roi XCorr (int_half box) Y0 X0 ymax xmax) in
                if data = [] then Inl ValueError
                else case fit L (int_half box) data (Max (set data)) (Min (set data)) of
                       Inl e \<Rightarrow> Inl e
                     | Inr res \<Rightarrow> Inr (- ((best_yc res + (of_int Y0 + real ymax)) - real H / 2),
                                      - ((best_xc res + (of_int X0 + real xmax)) - real W / 2)))))"
proof (intro conjI impI)
  show "get_image_shift L imageA imageB box roi = Inr (sy, sx) \<longleftrightarrow>
          (\<exists>XCorr Y0 X0 Win ymax xmax a0 b0 res.
             xcorr L imageA imageB = Inr XCorr \<and> search_window XCorr H W roi = (Y0, X0, Win)
           \<and> argmax2 Win = Inr (ymax, xmax)
           \<and> amax (fit_roi XCorr (int_half box) Y0 X0 ymax xmax) = Inr a0
           \<and> amin (fit_roi XCorr (int_half box) Y0 X0 ymax xmax) = Inr b0
           \<and> fit L (int_half box) (concat (fit_roi XCorr (int_half box) Y0 X0 ymax xmax)) a0 b0 = Inr res
           \<and> sy = - ((best_yc res + (of_int Y0 + real ymax)) - real H / 2)
           \<and> sx = - ((best_xc res + (of_int X0 + real xmax)) - real W / 2))"
    using s by (auto simp: get_image_shift_def Let_def split: sum.splits prod.splits)
next
  assume a: "is_matrix H W imageA \<and> is_matrix H W imageB \<and> 0 < H \<and> 0 < W
          \<and> keeps_shape (fft2 L) \<and> keeps_shape (ifft2 L)
          \<and> (case roi of None \<Rightarrow> True | Some r \<Rightarrow> 1 \<le> r \<and> 2 \<le> int H - r \<and> 2 \<le> int W - r)"
  then have A: "is_matrix H W imageA" and B: "is_matrix H W imageB" and H: "0 < H" and W: "0 < W"
    and f: "keeps_shape (fft2 L)" and g: "keeps_shape (ifft2 L)"
    and roi: "case roi of None \<Rightarrow> True | Some r \<Rightarrow> 1 \<le> r \<and> 2 \<le> int H - r \<and> 2 \<le> int W - r"
    by simp_all
  obtain XCorr where X: "xcorr L imageA imageB = Inr XCorr" "is_matrix H W XCorr"
    using xcorr_shape[OF A B H f g] by blast
  obtain Y0 X0 Win ymax xmax where sw: "search_window XCorr H W roi = (Y0, X0, Win)"
    and am: "argmax2 Win = Inr (ymax, xmax)"
    using window_peak[OF X(2) H W roi] by blast
  have e: "get_image_shift L imageA imageB box roi =
     refine_peak L XCorr H W (int_half box) (int ymax + Y0) (int xmax + X0)"
    using X(1) s sw am by (rule get_image_shift_refine)
  have "get_image_shift L imageA imageB box roi =
               (let data = concat (fit_roi XCorr (int_half box) Y0 X0 ymax xmax) in
                if data = [] then Inl ValueError
                else case fit L (int_half box) data (Max (set data)) (Min (set data)) of
                       Inl e \<Rightarrow> Inl e
                     | Inr res \<Rightarrow> Inr (- ((best_yc res + (of_int Y0 + real ymax)) - real H / 2),
                                      - ((best_xc res + (of_int X0 + real xmax)) - real W / 2)))"
    unfolding e refine_peak_cases fit_roi_peak
    by (simp add: Let_def add.commute split: sum.splits)
  with X(1) sw am show "\<exists>XCorr Y0 X0 Win ymax xmax.
             xcorr L imageA imageB = Inr XCorr \<and> search_window XCorr H W roi = (Y0, X0, Win)
           \<and> argmax2 Win = Inr (ymax, xmax)
           \<and> get_image_shift L imageA imageB box roi =
               (let data = concat (fit_roi XCorr (int_half box) Y0 X0 ymax xmax) in
                if data = [] then Inl ValueError
                else case fit L (int_half box) data (Max (set data)) (Min (set data)) of
                       Inl e \<Rightarrow> Inl e
                     | Inr res \<Rightarrow> Inr (- ((best_yc res + (of_int Y0 + real ymax)) - real H / 2),
                                      - ((best_xc res + (of_int X0 + real xmax)) - real W / 2)))"
    by blast
qed

theorem shift_is_negated_peak_offset_witness:
  "shape [[2::real]] = (1, 1)
   \<and> get_image_shift (exact_lib quarter_fit (\<lambda>_. Inr [])) [[2]] [[3]] 5 None = Inr (3 / 4, 1 / 4)"
proof -
  let ?L = "exact_lib quarter_fit (\<lambda>_. Inr [])"
  have s: "shape [[2::real]] = (1, 1)" by (simp add: shape_def)
  have a: "is_matrix 1 1 [[2::real]] \<and> is_matrix 1 1 [[3::real]] \<and> 0 < (1::nat) \<and> 0 < (1::nat)
      \<and> keeps_shape (fft2 ?L) \<and> keeps_shape (ifft2 ?L)
      \<and> (case None of None \<Rightarrow> True | Some r \<Rightarrow> 1 \<le> r \<and> 2 \<le> int 1 - r \<and> 2 \<le> int 1 - r)"
    by (simp add: is_matrix_def exact_lib_sel keeps_shape_dft2 keeps_shape_idft2)
  from shift_is_negated_peak_offset[OF s, of ?L "[[3]]" 5 None 0 0] a
  obtain XCorr Y0 X0 Win ymax xmax where w:
    "xcorr ?L [[2]] [[3]] = Inr XCorr" "search_window XCorr 1 1 None = (Y0, X0, Win)"
    "argmax2 Win = Inr (ymax, xmax)"
    "get_image_shift ?L [[2]] [[3]] 5 None =
       (let data = concat (fit_roi XCorr (int_half 5) Y0 X0 ymax xmax) in
        if data = [] then Inl ValueError
        else case fit ?L (int_half 5) data (Max (set data)) (Min (set data)) of
               Inl e \<Rightarrow> Inl e
             | Inr res \<Rightarrow> Inr (- ((best_yc res + (of_int Y0 + real ymax)) - real 1 / 2),
                              - ((best_xc res + (of_int X0 + real xmax)) - real 1 / 2)))"
    by blast
  have X: "XCorr = [[6]]" using w(1) xcorr_1[of _ _ 2 3] by simp
  have o: "Y0 = 0" "X0 = 0" "Win = [[6]]" using w(2) X by (simp_all add: search_window_none)
  have p: "ymax = 0" "xmax = 0" using w(3) o by (simp_all add: argmax2_def argmax_def shape_def)
  have d: "fit_roi [[6::real]] (int_half 5) 0 0 0 0 = [[6]]"
    by (simp add: fit_roi_def int_half_def slice2_def py_slice_def slice_index_def)
  have "get_image_shift ?L [[2]] [[3]] 5 None = Inr (3 / 4, 1 / 4)"
    unfolding w(4) X o p d by (simp add: exact_lib_sel quarter_fit_def)
  with s show ?thesis by simp
qed

section \<open>Segments of different shapes\<close>

lemma xcorr_error:
  assumes "is_matrix h1 w1 imageA" "is_matrix h2 w2 imageB" "0 < h1" "0 < h2" "keeps_shape (fft2 L)"
  shows "isl (xcorr L imageA imageB) \<longleftrightarrow> \<not> (compatible h1 h2 \<and> compatible w1 w2)"
    and "isl (xcorr L imageA imageB) \<Longrightarrow> xcorr L imageA imageB = Inl ValueError"
proof -
  have FA: "is_matrix h1 w1 (fft2 L imageA)" using assms(1,5) by (auto simp: keeps_shape_def)
  have "is_matrix h2 w2 (fft2 L imageB)" using assms(2,5) by (auto simp: keeps_shape_def)
  then have FB: "is_matrix h2 w2 (map (map cnj) (fft2 L imageB))" by (rule is_matrix_map)
  have m: "isl (multiply (fft2 L imageA) (map (map cnj) (fft2 L imageB)))
       \<longleftrightarrow> \<not> (compatible h1 h2 \<and> compatible w1 w2)"
    using FA FB assms(3,4) by (rule multiply_error(2))
  have "isl (xcorr L imageA imageB) = isl (multiply (fft2 L imageA) (map (map cnj) (fft2 L imageB)))"
    by (cases "multiply (fft2 L imageA) (map (map cnj) (fft2 L imageB))") (simp_all add: xcorr_def)
  then show "isl (xcorr L imageA imageB) \<longleftrightarrow> \<not> (compatible h1 h2 \<and> compatible w1 w2)"
    using m by simp
  show "isl (xcorr L imageA imageB) \<Longrightarrow> xcorr L imageA imageB = Inl ValueError"
    by (auto simp: xcorr_def multiply_def Let_def split: prod.splits option.splits sum.splits)
qed

lemma get_image_shift_xcorr_error:
  "xcorr L imageA imageB = Inl e \<Longrightarrow> get_image_shift L imageA imageB box roi = Inl e"
  by (simp add: get_image_shift_def)

lemma xcorr_pinv: "xcorr (L\<lparr>pinv := q\<rparr>) imageA imageB = xcorr L imageA imageB"
  by (simp add: xcorr_def split: sum.splits)

lemma get_image_shift_pinv:
  "get_image_shift (L\<lparr>pinv := q\<rparr>) imageA imageB box roi = get_image_shift L imageA imageB box roi"
  unfolding get_image_shift_def xcorr_pinv
  by (auto simp: Let_def split: sum.splits prod.splits)

lemma rcc_pairs_fail:
  "\<exists>p\<in>set ps. isl (shift (fst p) (snd p)) \<Longrightarrow> isl (rcc_pairs shift cb ps st)"
proof (induction ps arbitrary: st)
  case Nil
  then show ?case by simp
next
  case (Cons p ps)
  show ?case
  proof (cases "rcc_body shift cb (fst p) (snd p) st")
    case (Inl e)
    then show ?thesis by simp
  next
    case (Inr st')
    then have "\<not> isl (shift (fst p) (snd p))"
      by (auto simp: rcc_body_def split: sum.splits)
    then have "\<exists>q\<in>set ps. isl (shift (fst q) (snd q))" using Cons.prems by auto
    then have "isl (rcc_pairs shift cb ps st')" by (rule Cons.IH)
    then show ?thesis using Inr by simp
  qed
qed

lemma rcc_measure_pairs:
  assumes "1 \<le> n"
  shows "rcc_measure shift cb n =
     rcc_pairs shift cb (pairs n)
       \<lparr>rij = replicate (n * (n - 1) div 2) (replicate 2 0),
        dmat = replicate (n * (n - 1) div 2) (replicate (n - 1) 0),
        flag = 0, calls = (if cb then [0] else [])\<rparr>"
proof -
  have "nat (int n - 1) = n - 1" by simp
  then show ?thesis
    using assms by (simp add: rcc_measure_def int_half_pairs zeros_def rcc_outer_pairs pairs_def Let_def)
qed

lemma rcc_fails:
  assumes "i < j" "j < length segments"
    "isl (get_image_shift L (segments ! i) (segments ! j) 5 max_shift)"
  shows "isl (rcc L segments max_shift callback)"
    and "rcc (L\<lparr>pinv := q\<rparr>) segments max_shift callback = rcc L segments max_shift callback"
proof -
  let ?shift = "\<lambda>i j. get_image_shift L (segments ! i) (segments ! j) 5 max_shift"
  have n: "1 \<le> length segments" using assms by simp
  have "(i, j) \<in> set (pairs (length segments))" using assms(1,2) by (simp add: set_pairs)
  then have "\<exists>p\<in>set (pairs (length segments)). isl (?shift (fst p) (snd p))"
    using assms(3) by force
  then have "isl (rcc_measure ?shift callback (length segments))"
    unfolding rcc_measure_pairs[OF n] by (rule rcc_pairs_fail)
  then obtain e where e: "rcc_measure ?shift callback (length segments) = Inl e"
    by (cases "rcc_measure ?shift callback (length segments)") auto
  show "isl (rcc L segments max_shift callback)" using e by (simp add: rcc_def)
  show "rcc (L\<lparr>pinv := q\<rparr>) segments max_shift callback = rcc L segments max_shift callback"
    using e by (simp add: rcc_def get_image_shift_pinv)
qed

text \<open>
  Claim C3 as stated fails: a 2 by 2 and a 1 by 1 image have different shapes, yet
  \<open>xcorr\<close> raises nothing, because the product of the two transforms broadcasts.
\<close>

theorem shape_mismatch_counterexample:
  "shape [[1, 2], [3, 4::real]] \<noteq> shape [[5::real]]
   \<and> \<not> isl (xcorr blank_lib [[1, 2], [3, 4]] [[5]])"
proof -
  have "is_matrix 2 2 [[1, 2], [3, 4::real]]" "is_matrix 1 1 [[5::real]]"
    by (simp_all add: is_matrix_def)
  then have "isl (xcorr blank_lib [[1, 2], [3, 4]] [[5]]) \<longleftrightarrow> \<not> (compatible 2 1 \<and> compatible 2 1)"
    by (rule xcorr_error(1)) (simp_all add: blank_lib_keeps)
  then show ?thesis by (simp add: compatible_def shape_def)
qed

text \<open>
  Claim C3, amended. \<open>xcorr\<close> makes no shape check of its own. For two non-empty images
  and a transform that keeps the shape, \<open>xcorr\<close> raises exactly when the shapes are not
  compatible for broadcasting (in some dimension the extents differ and neither is 1);
  shapes that differ but are compatible pass \<open>xcorr\<close> without error. The error is numpy's
  \<open>ValueError\<close>, and whenever \<open>xcorr\<close> raises it \<open>get_image_shift\<close> raises it too (nothing is
  stated about \<open>get_image_shift\<close> when \<open>xcorr\<close> returns: the peak search and the fit may
  still raise). In \<open>rcc\<close> a pair of segments with incompatible shapes makes the whole call
  raise, and the result does not depend on the pseudo-inverse routine: the solve is
  never reached.
\<close>

theorem shape_mismatch_is_broadcast_error:
  assumes s: "is_matrix h1 w1 imageA" "is_matrix h2 w2 imageB" "0 < h1" "0 < h2" "keeps_shape (fft2 L)"
    and nonempty: "0 < w1" "0 < w2"
  shows "(isl (xcorr L imageA imageB) \<longleftrightarrow> \<not> (compatible h1 h2 \<and> compatible w1 w2))
     \<and> (isl (xcorr L imageA imageB) \<longrightarrow>
          xcorr L imageA imageB = Inl ValueError
          \<and> get_image_shift L imageA imageB box roi = Inl ValueError)
     \<and> (\<forall>segments i j.
          i < j \<and> j < length segments \<and> segments ! i = imageA \<and> segments ! j = imageB
          \<and> \<not> (compatible h1 h2 \<and> compatible w1 w2) \<longrightarrow>
            isl (rcc L segments max_shift callback)
          \<and> (\<forall>q. rcc (L\<lparr>pinv := q\<rparr>) segments max_shift callback
                   = rcc L segments max_shift callback))"
proof (intro conjI allI impI)
  show 1: "isl (xcorr L imageA imageB) \<longleftrightarrow> \<not> (compatible h1 h2 \<and> compatible w1 w2)"
    using s by (rule xcorr_error(1))
  show 2: "xcorr L imageA imageB = Inl ValueError" if "isl (xcorr L imageA imageB)"
    using s that by (rule xcorr_error(2))
  show "get_image_shift L imageA imageB box roi = Inl ValueError" if "isl (xcorr L imageA imageB)"
    using 2[OF that] by (rule get_image_shift_xcorr_error)
  fix segments :: "real matrix list" and i j
  assume a: "i < j \<and> j < length segments \<and> segments ! i = imageA \<and> segments ! j = imageB
          \<and> \<not> (compatible h1 h2 \<and> compatible w1 w2)"
  then have "isl (xcorr L (segments ! i) (segments ! j))" using 1 by simp
  then have "xcorr L (segments ! i) (segments ! j) = Inl ValueError" using 2 a by simp
  then have g: "isl (get_image_shift L (segments ! i) (segments ! j) 5 max_shift)"
    by (simp add: get_image_shift_xcorr_error)
  show "isl (rcc L segments max_shift callback)"
    using a g by (intro rcc_fails(1)[of i j]) simp_all
  show "rcc (L\<lparr>pinv := q\<rparr>) segments max_shift callback = rcc L segments max_shift callback" for q
    using a g by (intro rcc_fails(2)[of i j]) simp_all
qed

theorem shape_mismatch_is_broadcast_error_witness:
  "xcorr blank_lib [[1, 2], [3, 4]] [[1, 2, 3]] = Inl ValueError
   \<and> get_image_shift blank_lib [[1, 2], [3, 4]] [[1, 2, 3]] 5 None = Inl ValueError
   \<and> isl (rcc blank_lib [[[1, 2], [3, 4]], [[1, 2, 3]]] None False)"
proof -
  have m: "is_matrix 2 2 [[1, 2], [3, 4::real]]" "is_matrix 1 3 [[1, 2, 3::real]]"
    by (simp_all add: is_matrix_def)
  have c: "\<not> (compatible 2 1 \<and> compatible 2 3)" by (simp add: compatible_def)
  have p: "0 < (2::nat)" "0 < (1::nat)" by simp_all
  have pw: "0 < (2::nat)" "0 < (3::nat)" by simp_all
  note t = shape_mismatch_is_broadcast_error[OF m p blank_lib_keeps(1) pw, of 5 None None False]
  have i: "isl (xcorr blank_lib [[1, 2], [3, 4]] [[1, 2, 3]])" using t c by simp
  have 1: "xcorr blank_lib [[1, 2], [3, 4]] [[1, 2, 3]] = Inl ValueError"
    and 2: "get_image_shift blank_lib [[1, 2], [3, 4]] [[1, 2, 3]] 5 None = Inl ValueError"
    using t i by simp_all
  have "0 < (1::nat) \<and> 1 < length [[[1, 2], [3, 4]], [[1, 2, 3::real]]]
      \<and> [[[1, 2], [3, 4]], [[1, 2, 3::real]]] ! 0 = [[1, 2], [3, 4]]
      \<and> [[[1, 2], [3, 4]], [[1, 2, 3::real]]] ! 1 = [[1, 2, 3]] \<and> \<not> (compatible 2 1 \<and> compatible 2 3)"
    using c by simp
  then have 3: "isl (rcc blank_lib [[[1, 2], [3, 4]], [[1, 2, 3]]] None False)"
    using t by blast
  show ?thesis using 1 2 3 by simp
qed

section \<open>The solve and the trajectory\<close>

lemma sum_list_upt: "sum_list (map f [0..<n]) = (\<Sum>k<n. f k)"
  by (simp add: interv_sum_list_conv_sum_set_nat atLeast0LessThan)

lemma upt2: "[0..<2] = [0, 1]"
  by (simp add: upt_rec numeral_2_eq_2)

lemma upt3: "[0..<3] = [0, 1, 2]"
  by (simp add: upt_rec numeral_3_eq_3)

lemma dotp_unit_row:
  assumes "c < n - 1"
  shows "dotp (design_row n (c, c + 1)) x = x ! c"
proof -
  have "dotp (design_row n (c, c + 1)) x = (\<Sum>k<n - 1. design_row n (c, c + 1) ! k * x ! k)"
    by (simp add: dotp_def sum_list_upt design_row_def)
  also have "\<dots> = (\<Sum>k<n - 1. if k = c then x ! k else 0)"
    by (intro sum.cong refl) (auto simp: design_row_nth)
  also have "\<dots> = x ! c" using assms by simp
  finally show ?thesis .
qed

lemma design_full_column_rank:
  assumes "length x = n - 1" "\<forall>row\<in>set (map (design_row n) (pairs n)). dotp row x = 0"
  shows "x = replicate (n - 1) 0"
proof (rule nth_equalityI)
  show "length x = length (replicate (n - 1) (0::real))" using assms(1) by simp
next
  fix c assume "c < length x"
  then have c: "c < n - 1" using assms(1) by simp
  then have "(c, c + 1) \<in> set (pairs n)" by (simp add: set_pairs)
  then have "dotp (design_row n (c, c + 1)) x = 0" using assms(2) by simp
  then show "x ! c = replicate (n - 1) 0 ! c" using dotp_unit_row[OF c] c by simp
qed

lemma rcc_empty: "rcc L [] max_shift callback = Inl ValueError"
  by (simp add: rcc_def rcc_measure_def int_half_def zeros_def)

lemma rcc_single:
  assumes "pinv L [] = Inr []"
  shows "rcc L [seg] max_shift callback = Inr ([0], [0])"
  using assms
  by (simp add: rcc_def rcc_measure_def int_half_def zeros_def rcc_solve_def dot_def column_def cumsum_def)

lemma rcc_single_error:
  assumes "pinv L [] = Inl e"
  shows "rcc L [seg] max_shift callback = Inl e"
  using assms
  by (simp add: rcc_def rcc_measure_def int_half_def zeros_def rcc_solve_def)

lemma three_pixels_shift:
  "list_all (\<lambda>p. get_image_shift (exact_lib quarter_fit q) ([[[2]], [[3]], [[4]]] ! fst p) ([[[2]], [[3]], [[4]]] ! snd p) 5 None
                   = Inr ((\<lambda>_. (3 / 4, 1 / 4)) p)) (pairs 3)"
proof -
  have "get_image_shift (exact_lib quarter_fit q) [[a]] [[b]] 5 None = Inr (3 / 4, 1 / 4)" for a b
    using one_pixel_shift[of "1 / 4" "- 1 / 4" True q a b]
    by (simp add: quarter_fit_def[abs_def])
  then show ?thesis by (simp add: pairs_3)
qed

lemma design3: "map (design_row 3) (pairs 3) = [[1, 0], [1, 1], [0, 1]]"
  by (simp add: pairs_3 design_row_def upt2)

lemma pinv3_moore_penrose: "moore_penrose 3 2 [[1, 0], [1, 1], [0, 1]] pinv3"
  by (simp add: moore_penrose_def mat_mul_def mat_transpose_def is_matrix_def pinv3_def upt3 upt2)

text \<open>
  Claim C4 as stated fails: for a single segment \<open>rcc\<close> makes no check of its own and
  attempts the solve. Where the pseudo-inverse of the empty matrix is empty it returns
  the one-point trajectory; where the pseudo-inverse rejects the empty matrix the error
  is the one raised inside the solve.
\<close>

theorem single_segment_counterexample:
  "rcc blank_lib [[[1]]] None False = Inr ([0], [0])
     \<and> rcc strict_lib [[[1]]] None False = Inl LibraryError"
proof
  show "rcc blank_lib [[[1]]] None False = Inr ([0], [0])"
    by (rule rcc_single) (simp add: blank_lib_def exact_lib_sel)
  show "rcc strict_lib [[[1]]] None False = Inl LibraryError"
    by (rule rcc_single_error) (simp add: strict_lib_def exact_lib_sel)
qed

text \<open>
  Claim C4, amended. \<open>rcc\<close> makes no singularity check. With no segment it raises
  \<open>ValueError\<close> when it allocates the design matrix with \<open>-1\<close> columns. With one segment
  the empty system goes to the pseudo-inverse: if that returns the empty matrix the
  trajectory \<open>[(0, 0)]\<close> is returned, and if it raises, \<open>rcc\<close> raises the same error.
  With two or more segments whose shifts are all obtained, the design matrix handed to
  the solve has full column rank \<open>n - 1\<close>: only the zero vector is orthogonal to all its
  rows. A rank-deficient design matrix therefore never arises.
\<close>

theorem no_singularity_check:
  assumes "list_all (\<lambda>p. get_image_shift L (segments ! fst p) (segments ! snd p) 5 max_shift = Inr (sh p))
             (pairs (length segments))"
  shows "(length segments = 0 \<longrightarrow> rcc L segments max_shift callback = Inl ValueError)
     \<and> (length segments = 1 \<and> pinv L [] = Inr [] \<longrightarrow>
          rcc L segments max_shift callback = Inr ([0], [0]))
     \<and> (\<forall>e. length segments = 1 \<and> pinv L [] = Inl e \<longrightarrow>
          rcc L segments max_shift callback = Inl e)
     \<and> (2 \<le> length segments \<longrightarrow>
          (\<exists>st. rcc_measure (\<lambda>i j. get_image_shift L (segments ! i) (segments ! j) 5 max_shift)
                   callback (length segments) = Inr st
             \<and> rcc L segments max_shift callback = rcc_solve L st
             \<and> is_matrix (length segments * (length segments - 1) div 2) (length segments - 1) (dmat st)
             \<and> (\<forall>x. length x = length segments - 1 \<and> (\<forall>row\<in>set (dmat st). dotp row x = 0)
                    \<longrightarrow> x = replicate (length segments - 1) 0)))"
proof (intro conjI impI allI)
  assume "length segments = 0"
  then show "rcc L segments max_shift callback = Inl ValueError" by (simp add: rcc_empty)
next
  assume a: "length segments = 1 \<and> pinv L [] = Inr []"
  then obtain seg where "segments = [seg]" by (cases segments) auto
  then show "rcc L segments max_shift callback = Inr ([0], [0])" using a by (simp add: rcc_single)
next
  fix e
  assume a: "length segments = 1 \<and> pinv L [] = Inl e"
  then obtain seg where "segments = [seg]" by (cases segments) auto
  then show "rcc L segments max_shift callback = Inl e" using a by (simp add: rcc_single_error)
next
  let ?n = "length segments"
  let ?shift = "\<lambda>i j. get_image_shift L (segments ! i) (segments ! j) 5 max_shift"
  let ?st = "\<lparr>rij = map (\<lambda>p. [fst (sh p), snd (sh p)]) (pairs ?n),
          dmat = map (design_row ?n) (pairs ?n),
          flag = ?n * (?n - 1) div 2,
          calls = (if callback then [0..<?n * (?n - 1) div 2 + 1] else [])\<rparr>"
  assume n: "2 \<le> ?n"
  have run: "rcc_measure ?shift callback ?n = Inr ?st"
    using n assms by (intro rcc_measure_ok) simp_all
  have r: "rcc L segments max_shift callback = rcc_solve L ?st" using run by (simp add: rcc_def)
  have a: "is_matrix (?n * (?n - 1) div 2) (?n - 1) (dmat ?st)"
    by (simp add: is_matrix_def length_pairs list_all_length design_row_def)
  have f: "\<forall>x. length x = ?n - 1 \<and> (\<forall>row\<in>set (dmat ?st). dotp row x = 0) \<longrightarrow> x = replicate (?n - 1) 0"
    using design_full_column_rank[of _ ?n] by simp
  show "\<exists>st. rcc_measure ?shift callback ?n = Inr st
             \<and> rcc L segments max_shift callback = rcc_solve L st
             \<and> is_matrix (?n * (?n - 1) div 2) (?n - 1) (dmat st)
             \<and> (\<forall>x. length x = ?n - 1 \<and> (\<forall>row\<in>set (dmat st). dotp row x = 0)
                    \<longrightarrow> x = replicate (?n - 1) 0)"
    using run r a f by blast
qed

theorem no_singularity_check_witness:
  "\<exists>st. rcc_measure (\<lambda>i j. get_image_shift (exact_lib quarter_fit (\<lambda>_. Inr pinv3))
                               ([[[2]], [[3]], [[4]]] ! i) ([[[2]], [[3]], [[4]]] ! j) 5 None) False 3 = Inr st
     \<and> is_matrix 3 2 (dmat st)
     \<and> (\<forall>x. length x = 2 \<and> (\<forall>row\<in>set (dmat st). dotp row x = 0) \<longrightarrow> x = [0, 0])"
proof -
  let ?L = "exact_lib quarter_fit (\<lambda>_. Inr pinv3)"
  let ?S = "[[[2]], [[3]], [[4::real]]]"
  have r2: "replicate (3 - 1) (0::real) = [0, 0]" by (simp add: numeral_2_eq_2)
  have l: "length ?S = 3" by simp
  have b: "2 \<le> (3::nat)" by simp
  note t = no_singularity_check[of ?L ?S None "\<lambda>_. (3 / 4, 1 / 4)" False, unfolded l, OF three_pixels_shift]
  from t b obtain st where
    "rcc_measure (\<lambda>i j. get_image_shift ?L (?S ! i) (?S ! j) 5 None) False 3 = Inr st"
    "is_matrix (3 * (3 - 1) div 2) (3 - 1) (dmat st)"
    "\<forall>x. length x = 3 - 1 \<and> (\<forall>row\<in>set (dmat st). dotp row x = 0) \<longrightarrow> x = replicate (3 - 1) 0"
    by blast
  then show ?thesis unfolding r2 by (intro exI[of _ st]) simp
qed

lemma normal_equations:
  fixes a :: "nat \<Rightarrow> nat \<Rightarrow> real" and p :: "nat \<Rightarrow> nat \<Rightarrow> real" and r :: "nat \<Rightarrow> real"
  assumes apa: "\<And>i j. i < m \<Longrightarrow> j < q \<Longrightarrow> (\<Sum>k<m. (\<Sum>l<q. a i l * p l k) * a k j) = a i j"
    and sym: "\<And>i k. i < m \<Longrightarrow> k < m \<Longrightarrow> (\<Sum>l<q. a i l * p l k) = (\<Sum>l<q. a k l * p l i)"
    and j: "j < q"
  shows "(\<Sum>i<m. a i j * ((\<Sum>l<q. a i l * (\<Sum>k<m. p l k * r k)) - r i)) = 0"
proof -
  define ap where "ap = (\<lambda>i k. \<Sum>l<q. a i l * p l k)"
  have apa': "(\<Sum>k<m. ap i k * a k j) = a i j" if "i < m" for i
    using apa[OF that j] by (simp add: ap_def)
  have sym': "ap i k = ap k i" if "i < m" "k < m" for i k
    using sym[OF that] by (simp add: ap_def)
  have ad: "(\<Sum>l<q. a i l * (\<Sum>k<m. p l k * r k)) = (\<Sum>k<m. ap i k * r k)" for i
  proof -
    have "(\<Sum>l<q. a i l * (\<Sum>k<m. p l k * r k)) = (\<Sum>l<q. \<Sum>k<m. a i l * p l k * r k)"
      by (intro sum.cong refl) (simp add: sum_distrib_left mult.assoc)
    also have "\<dots> = (\<Sum>k<m. \<Sum>l<q. a i l * p l k * r k)" by (rule sum.swap)
    also have "\<dots> = (\<Sum>k<m. ap i k * r k)"
      unfolding ap_def by (intro sum.cong refl) (simp add: sum_distrib_right)
    finally show ?thesis .
  qed
  have "(\<Sum>i<m. a i j * (\<Sum>k<m. ap i k * r k)) = (\<Sum>i<m. \<Sum>k<m. ap i k * a i j * r k)"
    by (intro sum.cong refl) (simp add: sum_distrib_left mult.assoc mult.left_commute)
  also have "\<dots> = (\<Sum>k<m. \<Sum>i<m. ap i k * a i j * r k)" by (rule sum.swap)
  also have "\<dots> = (\<Sum>k<m. \<Sum>i<m. ap k i * a i j * r k)"
    by (intro sum.cong refl) (simp add: sym')
  also have "\<dots> = (\<Sum>k<m. (\<Sum>i<m. ap k i * a i j) * r k)"
    by (intro sum.cong refl) (simp add: sum_distrib_right)
  also have "\<dots> = (\<Sum>k<m. a k j * r k)"
    by (intro sum.cong refl) (simp add: apa')
  finally have "(\<Sum>i<m. a i j * (\<Sum>k<m. ap i k * r k)) = (\<Sum>i<m. a i j * r i)" .
  then show ?thesis by (simp add: ad right_diff_distrib sum_subtractf)
qed

lemma residual_split:
  fixes a :: "nat \<Rightarrow> nat \<Rightarrow> real" and d v :: "nat \<Rightarrow> real" and r :: "nat \<Rightarrow> real"
  assumes ne: "\<And>j. j < q \<Longrightarrow> (\<Sum>i<m. a i j * ((\<Sum>l<q. a i l * d l) - r i)) = 0"
  shows "(\<Sum>k<m. ((\<Sum>l<q. a k l * v l) - r k)\<^sup>2)
       = (\<Sum>k<m. (\<Sum>l<q. a k l * (v l - d l))\<^sup>2) + (\<Sum>k<m. ((\<Sum>l<q. a k l * d l) - r k)\<^sup>2)"
proof -
  define w where "w = (\<lambda>k. (\<Sum>l<q. a k l * d l) - r k)"
  define e where "e = (\<lambda>l. v l - d l)"
  define u where "u = (\<lambda>k. \<Sum>l<q. a k l * e l)"
  have ne': "(\<Sum>k<m. a k l * w k) = 0" if "l < q" for l
    using ne[OF that] by (simp add: w_def)
  have uw: "(\<Sum>l<q. a k l * v l) - r k = u k + w k" for k
    by (simp add: u_def w_def e_def right_diff_distrib sum_subtractf)
  have cross: "(\<Sum>k<m. u k * w k) = 0"
  proof -
    have "(\<Sum>k<m. u k * w k) = (\<Sum>k<m. \<Sum>l<q. e l * (a k l * w k))"
      unfolding u_def by (intro sum.cong refl) (simp add: sum_distrib_right mult.assoc mult.left_commute)
    also have "\<dots> = (\<Sum>l<q. \<Sum>k<m. e l * (a k l * w k))" by (rule sum.swap)
    also have "\<dots> = (\<Sum>l<q. e l * (\<Sum>k<m. a k l * w k))"
      by (intro sum.cong refl) (simp add: sum_distrib_left)
    also have "\<dots> = 0" using ne' by simp
    finally show ?thesis .
  qed
  have "(\<Sum>k<m. ((\<Sum>l<q. a k l * v l) - r k)\<^sup>2) = (\<Sum>k<m. (u k + w k)\<^sup>2)"
    by (simp only: uw)
  also have "\<dots> = (\<Sum>k<m. (u k)\<^sup>2 + 2 * (u k * w k) + (w k)\<^sup>2)"
    by (intro sum.cong refl) (simp add: power2_sum)
  also have "\<dots> = (\<Sum>k<m. (u k)\<^sup>2) + 2 * (\<Sum>k<m. u k * w k) + (\<Sum>k<m. (w k)\<^sup>2)"
    by (simp add: sum.distrib sum_distrib_left)
  finally show ?thesis using cross by (simp add: u_def w_def e_def)
qed

lemma mat_mul_nth: "i < r \<Longrightarrow> j < c \<Longrightarrow> mat_mul a b r k c ! i ! j = (\<Sum>l<k. a ! i ! l * b ! l ! j)"
  by (simp add: mat_mul_def sum_list_upt)

lemma moore_penrose_apa:
  assumes "moore_penrose m q a p" "i < m" "j < q"
  shows "(\<Sum>k<m. (\<Sum>l<q. a ! i ! l * p ! l ! k) * a ! k ! j) = a ! i ! j"
proof -
  have "mat_mul (mat_mul a p m q m) a m m q ! i ! j = a ! i ! j"
    using assms(1) by (simp add: moore_penrose_def)
  moreover have "mat_mul (mat_mul a p m q m) a m m q ! i ! j
      = (\<Sum>k<m. mat_mul a p m q m ! i ! k * a ! k ! j)"
    using assms(2,3) by (rule mat_mul_nth)
  moreover have "(\<Sum>k<m. mat_mul a p m q m ! i ! k * a ! k ! j)
      = (\<Sum>k<m. (\<Sum>l<q. a ! i ! l * p ! l ! k) * a ! k ! j)"
    using assms(2) by (intro sum.cong refl) (simp add: mat_mul_nth)
  ultimately show ?thesis by simp
qed

lemma moore_penrose_sym:
  assumes "moore_penrose m q a p" "i < m" "k < m"
  shows "(\<Sum>l<q. a ! i ! l * p ! l ! k) = (\<Sum>l<q. a ! k ! l * p ! l ! i)"
proof -
  have "mat_transpose (mat_mul a p m q m) m m ! i ! k = mat_mul a p m q m ! i ! k"
    using assms(1) by (simp add: moore_penrose_def)
  moreover have "mat_transpose (mat_mul a p m q m) m m ! i ! k = mat_mul a p m q m ! k ! i"
    using assms(2,3) by (simp add: mat_transpose_def)
  ultimately show ?thesis using assms(2,3) by (simp add: mat_mul_nth)
qed

lemma dotp_sum: "length row = q \<Longrightarrow> dotp row v = (\<Sum>l<q. row ! l * v ! l)"
  by (simp add: dotp_def sum_list_upt)

lemma residual_sum:
  assumes "is_matrix m q a"
  shows "residual a r c v = (\<Sum>k<m. ((\<Sum>l<q. a ! k ! l * v ! l) - r ! k ! c)\<^sup>2)"
proof -
  have lm: "length a = m" using assms by (simp add: is_matrix_def)
  have "residual a r c v = (\<Sum>k<m. (dotp (a ! k) v - r ! k ! c)\<^sup>2)"
    by (simp add: residual_def sum_list_upt lm)
  also have "\<dots> = (\<Sum>k<m. ((\<Sum>l<q. a ! k ! l * v ! l) - r ! k ! c)\<^sup>2)"
    using assms by (intro sum.cong refl) (simp add: dotp_sum is_matrix_nth)
  finally show ?thesis .
qed

lemma pinv_least_squares:
  assumes mp: "moore_penrose m q a p" and a: "is_matrix m q a"
    and d: "length d = q" "\<And>l. l < q \<Longrightarrow> d ! l = (\<Sum>k<m. p ! l ! k * r ! k ! c)"
    and v: "length v = q"
  shows "residual a r c v =
           (\<Sum>k<m. (\<Sum>l<q. a ! k ! l * (v ! l - d ! l))\<^sup>2) + residual a r c d"
    and "residual a r c d \<le> residual a r c v"
proof -
  have ne: "(\<Sum>i<m. a ! i ! j * ((\<Sum>l<q. a ! i ! l * d ! l) - r ! i ! c)) = 0" if j: "j < q" for j
  proof -
    have "(\<Sum>i<m. a ! i ! j * ((\<Sum>l<q. a ! i ! l * (\<Sum>k<m. p ! l ! k * r ! k ! c)) - r ! i ! c)) = 0"
      using moore_penrose_apa[OF mp] moore_penrose_sym[OF mp] j
      by (intro normal_equations[where a = "\<lambda>i l. a ! i ! l" and p = "\<lambda>l k. p ! l ! k" and r = "\<lambda>k. r ! k ! c"]) simp_all
    moreover have "(\<Sum>l<q. a ! i ! l * (\<Sum>k<m. p ! l ! k * r ! k ! c)) = (\<Sum>l<q. a ! i ! l * d ! l)" for i
      by (intro sum.cong refl) (simp add: d(2))
    ultimately show ?thesis by simp
  qed
  show s: "residual a r c v =
           (\<Sum>k<m. (\<Sum>l<q. a ! k ! l * (v ! l - d ! l))\<^sup>2) + residual a r c d"
    unfolding residual_sum[OF a]
    by (rule residual_split[where a = "\<lambda>i l. a ! i ! l" and d = "\<lambda>l. d ! l" and v = "\<lambda>l. v ! l" and r = "\<lambda>k. r ! k ! c"])
       (rule ne)
  have "0 \<le> (\<Sum>k<m. (\<Sum>l<q. a ! k ! l * (v ! l - d ! l))\<^sup>2)" by (intro sum_nonneg) simp
  then show "residual a r c d \<le> residual a r c v" using s by simp
qed

lemma design_least_squares_unique:
  assumes mp: "moore_penrose (n * (n - 1) div 2) (n - 1) (map (design_row n) (pairs n)) p"
    and d: "length d = n - 1" "\<And>l. l < n - 1 \<Longrightarrow> d ! l = (\<Sum>k<n * (n - 1) div 2. p ! l ! k * r ! k ! c)"
    and v: "length v = n - 1"
    and eq: "residual (map (design_row n) (pairs n)) r c v = residual (map (design_row n) (pairs n)) r c d"
  shows "v = d"
proof -
  let ?a = "map (design_row n) (pairs n)"
  let ?m = "n * (n - 1) div 2" and ?q = "n - 1"
  let ?e = "map (\<lambda>l. v ! l - d ! l) [0..<?q]"
  have a: "is_matrix ?m ?q ?a"
    by (simp add: is_matrix_def length_pairs list_all_length design_row_def)
  have s: "residual ?a r c v = (\<Sum>k<?m. (\<Sum>l<?q. ?a ! k ! l * (v ! l - d ! l))\<^sup>2) + residual ?a r c d"
    using mp a d v by (rule pinv_least_squares(1))
  then have z: "(\<Sum>k<?m. (\<Sum>l<?q. ?a ! k ! l * (v ! l - d ! l))\<^sup>2) = 0" using eq by simp
  have u0: "(\<Sum>l<?q. ?a ! k ! l * (v ! l - d ! l)) = 0" if k: "k < ?m" for k
  proof -
    have "\<forall>k\<in>{..<?m}. (\<Sum>l<?q. ?a ! k ! l * (v ! l - d ! l))\<^sup>2 = 0"
      using z by (subst (asm) sum_nonneg_eq_0_iff) simp_all
    then show ?thesis using k by simp
  qed
  have "\<forall>row\<in>set ?a. dotp row ?e = 0"
  proof
    fix row assume "row \<in> set ?a"
    then obtain k where k: "k < ?m" "row = ?a ! k"
      by (metis in_set_conv_nth length_map length_pairs)
    have lr: "length row = ?q" using k a by (simp add: is_matrix_nth)
    have "dotp row ?e = (\<Sum>l<?q. row ! l * ?e ! l)" using lr by (rule dotp_sum)
    also have "\<dots> = (\<Sum>l<?q. ?a ! k ! l * (v ! l - d ! l))"
      using k(2) by (intro sum.cong refl) simp
    also have "\<dots> = 0" using u0[OF k(1)] .
    finally show "dotp row ?e = 0" .
  qed
  then have e0: "?e = replicate ?q 0" by (intro design_full_column_rank) simp_all
  show ?thesis
  proof (rule nth_equalityI)
    show "length v = length d" using d v by simp
  next
    fix l assume "l < length v"
    then have l: "l < ?q" using v by simp
    have "?e ! l = replicate ?q 0 ! l" using e0 by simp
    then show "v ! l = d ! l" using l by simp
  qed
qed

lemma length_cumsum_from: "length (cumsum_from acc xs) = length xs"
  by (induction xs arbitrary: acc) simp_all

lemma nth_cumsum_from:
  "k < length xs \<Longrightarrow> cumsum_from acc xs ! k = acc + (\<Sum>l<Suc k. xs ! l)"
proof (induction xs arbitrary: acc k)
  case Nil
  then show ?case by simp
next
  case (Cons x xs)
  show ?case
  proof (cases k)
    case 0
    then show ?thesis by simp
  next
    case (Suc k')
    then have "k' < length xs" using Cons.prems by simp
    then have "cumsum_from (acc + x) xs ! k' = acc + x + (\<Sum>l<Suc k'. xs ! l)" by (rule Cons.IH)
    moreover have "(\<Sum>l<Suc (Suc k'). (x # xs) ! l) = x + (\<Sum>l<Suc k'. xs ! l)"
      by (subst sum.lessThan_Suc_shift) simp
    ultimately show ?thesis using Suc by simp
  qed
qed

lemma trajectory_nth:
  assumes "k \<le> length d"
  shows "(0 # cumsum d) ! k = (\<Sum>l<k. d ! l)"
proof (cases k)
  case 0
  then show ?thesis by simp
next
  case (Suc k')
  then show ?thesis using assms by (simp add: cumsum_def nth_cumsum_from)
qed

lemma dot_ok:
  assumes "is_matrix q m p" "is_matrix m 2 r" "0 < m"
  shows "dot p r = Inr (map (\<lambda>row. map (\<lambda>c. \<Sum>k<m. row ! k * r ! k ! c) [0..<2]) p)"
proof -
  have "list_all (\<lambda>row. length row = length r) p"
    using assms(1,2) by (simp add: is_matrix_def)
  moreover have "shape r = (m, 2)" using assms(2,3) by (rule shape_is_matrix)
  moreover have "length r = m" using assms(2) by (simp add: is_matrix_def)
  ultimately show ?thesis by (simp add: dot_def sum_list_upt)
qed

lemma column_ok:
  assumes "is_matrix q w d" "c < w"
  shows "column c d = Inr (map (\<lambda>row. row ! c) d)"
  using assms by (auto simp: column_def is_matrix_def list_all_iff)

lemma rcc_solve_ok:
  assumes Pv: "pinv L (dmat st) = Inr P" and P: "is_matrix q m P"
    and R: "is_matrix m 2 (rij st)" and m: "0 < m"
  shows "\<exists>D. dot P (rij st) = Inr D \<and> is_matrix q 2 D
     \<and> (\<forall>l<q. \<forall>c<2. D ! l ! c = (\<Sum>k<m. P ! l ! k * rij st ! k ! c))
     \<and> rcc_solve L st = Inr (0 # cumsum (map (\<lambda>row. row ! 0) D), 0 # cumsum (map (\<lambda>row. row ! 1) D))"
proof -
  let ?D = "map (\<lambda>row. map (\<lambda>c. \<Sum>k<m. row ! k * rij st ! k ! c) [0..<2]) P"
  have d: "dot P (rij st) = Inr ?D" using P R m by (rule dot_ok)
  have lp: "length P = q" using P by (simp add: is_matrix_def)
  have D: "is_matrix q 2 ?D" using lp by (simp add: is_matrix_def list_all_length)
  have e: "\<forall>l<q. \<forall>c<2. ?D ! l ! c = (\<Sum>k<m. P ! l ! k * rij st ! k ! c)"
    using lp by simp
  have c0: "column 0 ?D = Inr (map (\<lambda>row. row ! 0) ?D)" using D by (rule column_ok) simp
  have c1: "column 1 ?D = Inr (map (\<lambda>row. row ! 1) ?D)" using D by (rule column_ok) simp
  have "rcc_solve L st = Inr (0 # cumsum (map (\<lambda>row. row ! 0) ?D), 0 # cumsum (map (\<lambda>row. row ! 1) ?D))"
    unfolding rcc_solve_def Pv using d c0 c1 by simp
  then show ?thesis using d D e by blast
qed

lemma blank6_shift:
  "get_image_shift (exact_lib f p) (replicate 6 (replicate 6 0)) (replicate 6 (replicate 6 0)) 5 None
     = Inl ValueError"
proof -
  let ?Z = "replicate 6 (replicate 6 (0::real))"
  have x: "xcorr (exact_lib f p) ?Z ?Z = Inr ?Z" by (rule xcorr_zero) simp
  have h: "int_half 5 = 2" by (simp add: int_half_def)
  have s: "shape ?Z = (6, 6)" by (rule shape_replicate) simp
  have "get_image_shift (exact_lib f p) ?Z ?Z 5 None
      = refine_peak (exact_lib f p) ?Z 6 6 (int_half 5) (int 0 + 0) (int 0 + 0)"
    using x s search_window_none zero6_peak by (rule get_image_shift_refine)
  also have "\<dots> = Inl ValueError"
    using zero6_fit_roi by (simp add: refine_peak_cases h fit_roi_def Let_def)
  finally show ?thesis .
qed

lemma rcc_pair_error:
  assumes "get_image_shift L a b 5 max_shift = Inl e"
  shows "rcc L [a, b] max_shift callback = Inl e"
  using assms
  by (simp add: rcc_def rcc_measure_def int_half_def zeros_def rcc_body_def)

text \<open>
  Claim C1 as stated fails: not every sequence of two or more segments gives a
  trajectory. For two blank 6 by 6 segments the shift estimate of the only pair raises
  \<open>ValueError\<close> (the brightest pixel is at the corner and the fit window is empty), and
  \<open>rcc\<close>, which catches nothing, raises it too, even with a fit and a pseudo-inverse that
  always return.
\<close>

theorem blank_segments_counterexample:
  "length [replicate 6 (replicate 6 (0::real)), replicate 6 (replicate 6 0)] = 2
   \<and> get_image_shift (exact_lib quarter_fit (\<lambda>_. Inr pinv3))
        (replicate 6 (replicate 6 0)) (replicate 6 (replicate 6 0)) 5 None = Inl ValueError
   \<and> rcc (exact_lib quarter_fit (\<lambda>_. Inr pinv3))
        [replicate 6 (replicate 6 0), replicate 6 (replicate 6 0)] None False = Inl ValueError"
  using blank6_shift[of quarter_fit "\<lambda>_. Inr pinv3"]
    rcc_pair_error[OF blank6_shift[of quarter_fit "\<lambda>_. Inr pinv3"], of False]
  by simp

text \<open>
  Claim C1, amended. For \<open>n \<ge> 2\<close> segments whose pairwise shift estimates all return, and
  a pseudo-inverse routine that returns a matrix of the transposed shape, \<open>rcc\<close> returns two
  sequences of length \<open>n\<close> that start with 0, and entry \<open>k\<close> of each is the sum of the first
  \<open>k\<close> increments, where the increments \<open>D\<close> are the product of the pseudo-inverse of the
  design matrix \<open>A\<close> with the measurements \<open>R\<close>. If the routine's result satisfies the
  Penrose conditions, each column of \<open>D\<close> minimises the residual \<open>|A v - R|\<^sup>2\<close> over all
  \<open>v\<close> and is the only minimiser (so it is also the one of least norm).
\<close>

theorem rcc_trajectory:
  assumes n: "length segments = n" "2 \<le> n"
    and sh: "list_all (\<lambda>p. get_image_shift L (segments ! fst p) (segments ! snd p) 5 max_shift = Inr (sh p))
               (pairs n)"
    and A: "A = map (design_row n) (pairs n)"
    and R: "R = map (\<lambda>p. [fst (sh p), snd (sh p)]) (pairs n)"
    and Pv: "pinv L A = Inr P" and P: "is_matrix (n - 1) (n * (n - 1) div 2) P"
  shows "\<exists>D ty tx. dot P R = Inr D \<and> is_matrix (n - 1) 2 D
     \<and> (\<forall>l<n - 1. \<forall>c<2. D ! l ! c = (\<Sum>k<n * (n - 1) div 2. P ! l ! k * R ! k ! c))
     \<and> rcc L segments max_shift callback = Inr (ty, tx)
     \<and> length ty = n \<and> length tx = n \<and> ty ! 0 = 0 \<and> tx ! 0 = 0
     \<and> (\<forall>k<n - 1. ty ! (k + 1) = ty ! k + D ! k ! 0 \<and> tx ! (k + 1) = tx ! k + D ! k ! 1)
     \<and> (\<forall>k<n. ty ! k = (\<Sum>l<k. D ! l ! 0) \<and> tx ! k = (\<Sum>l<k. D ! l ! 1))
     \<and> (moore_penrose (n * (n - 1) div 2) (n - 1) A P \<longrightarrow>
          (\<forall>c<2. \<forall>v. length v = n - 1 \<longrightarrow>
               residual A R c (map (\<lambda>row. row ! c) D) \<le> residual A R c v
             \<and> (residual A R c v = residual A R c (map (\<lambda>row. row ! c) D)
                  \<longrightarrow> v = map (\<lambda>row. row ! c) D)))"
proof -
  let ?m = "n * (n - 1) div 2" and ?q = "n - 1"
  let ?shift = "\<lambda>i j. get_image_shift L (segments ! i) (segments ! j) 5 max_shift"
  let ?st = "\<lparr>rij = R, dmat = A, flag = ?m, calls = (if callback then [0..<?m + 1] else [])\<rparr>"
  have n1: "1 \<le> n" using n(2) by simp
  have run: "rcc_measure ?shift callback n = Inr ?st"
    unfolding A R using n1 sh by (rule rcc_measure_ok)
  have rc: "rcc L segments max_shift callback = rcc_solve L ?st"
    using run n(1) by (simp add: rcc_def)
  have m: "0 < ?m"
  proof -
    have "2 * 1 \<le> n * (n - 1)" using n(2) by (intro mult_le_mono) simp_all
    then show ?thesis by simp
  qed
  have Am: "is_matrix ?m ?q A"
    unfolding A by (simp add: is_matrix_def length_pairs list_all_length design_row_def)
  have Rm: "is_matrix ?m 2 R"
    unfolding R by (simp add: is_matrix_def length_pairs list_all_length)
  obtain D where D: "dot P R = Inr D" "is_matrix ?q 2 D"
      "\<forall>l<?q. \<forall>c<2. D ! l ! c = (\<Sum>k<?m. P ! l ! k * R ! k ! c)"
      "rcc_solve L ?st = Inr (0 # cumsum (map (\<lambda>row. row ! 0) D), 0 # cumsum (map (\<lambda>row. row ! 1) D))"
    using rcc_solve_ok[of L ?st P ?q ?m] Pv P Rm m by auto
  let ?d0 = "map (\<lambda>row. row ! 0) D" and ?d1 = "map (\<lambda>row. row ! 1) D"
  let ?ty = "0 # cumsum ?d0" and ?tx = "0 # cumsum ?d1"
  have lD: "length D = ?q" using D(2) by (simp add: is_matrix_def)
  have res: "rcc L segments max_shift callback = Inr (?ty, ?tx)" using rc D(4) by simp
  have len: "length ?ty = n" "length ?tx = n"
    using lD n(2) by (simp_all add: cumsum_def length_cumsum_from)
  have nth: "?ty ! k = (\<Sum>l<k. D ! l ! 0) \<and> ?tx ! k = (\<Sum>l<k. D ! l ! 1)" if "k < n" for k
  proof -
    have k: "k \<le> length ?d0" "k \<le> length ?d1" using that lD by simp_all
    have "(\<Sum>l<k. ?d0 ! l) = (\<Sum>l<k. D ! l ! 0)" "(\<Sum>l<k. ?d1 ! l) = (\<Sum>l<k. D ! l ! 1)"
      using k lD by (auto intro!: sum.cong)
    then show ?thesis using trajectory_nth[OF k(1)] trajectory_nth[OF k(2)] by simp
  qed
  have step: "?ty ! (k + 1) = ?ty ! k + D ! k ! 0 \<and> ?tx ! (k + 1) = ?tx ! k + D ! k ! 1" if "k < ?q" for k
  proof -
    have "k < n" "k + 1 < n" using that by simp_all
    then show ?thesis using nth[of k] nth[of "k + 1"] by simp
  qed
  have ls: "residual A R c (map (\<lambda>row. row ! c) D) \<le> residual A R c v
             \<and> (residual A R c v = residual A R c (map (\<lambda>row. row ! c) D)
                  \<longrightarrow> v = map (\<lambda>row. row ! c) D)"
    if mp: "moore_penrose ?m ?q A P" and c: "c < 2" and v: "length v = ?q" for c v
  proof -
    let ?d = "map (\<lambda>row. row ! c) D"
    have ld: "length ?d = ?q" using lD by simp
    have de: "?d ! l = (\<Sum>k<?m. P ! l ! k * R ! k ! c)" if "l < ?q" for l
      using that lD D(3) c by simp
    have 1: "residual A R c ?d \<le> residual A R c v"
      using mp Am ld de v by (rule pinv_least_squares(2))
    have 2: "v = ?d" if "residual A R c v = residual A R c ?d"
      using mp ld de v that unfolding A by (rule design_least_squares_unique)
    show ?thesis using 1 2 by blast
  qed
  have z: "?ty ! 0 = 0" "?tx ! 0 = 0" by simp_all
  show ?thesis
    using D(1,2,3) res len z step nth ls by (intro exI[of _ D] exI[of _ ?ty] exI[of _ ?tx]) blast
qed

theorem rcc_trajectory_witness:
  "\<exists>ty tx. rcc (exact_lib quarter_fit (\<lambda>_. Inr pinv3)) [[[2]], [[3]], [[4]]] None False = Inr (ty, tx)
     \<and> length ty = 3 \<and> length tx = 3 \<and> ty ! 0 = 0 \<and> tx ! 0 = 0
     \<and> ty ! 1 = 1 / 2 \<and> ty ! 2 = 1 \<and> tx ! 1 = 1 / 6 \<and> tx ! 2 = 1 / 3
     \<and> residual [[1, 0], [1, 1], [0, 1]] [[3 / 4, 1 / 4], [3 / 4, 1 / 4], [3 / 4, 1 / 4]] 0 [1 / 2, 1 / 2]
         \<le> residual [[1, 0], [1, 1], [0, 1]] [[3 / 4, 1 / 4], [3 / 4, 1 / 4], [3 / 4, 1 / 4]] 0 [3 / 4, 0]"
proof -
  let ?L = "exact_lib quarter_fit (\<lambda>_. Inr pinv3)"
  let ?A = "map (design_row 3) (pairs 3)"
  let ?R = "map (\<lambda>p. [fst (3 / 4, 1 / 4 :: real), snd (3 / 4 :: real, 1 / 4 :: real)]) (pairs 3)"
  have Pv: "pinv ?L ?A = Inr pinv3" by (simp add: exact_lib_sel)
  have P: "is_matrix (3 - 1) (3 * (3 - 1) div 2) pinv3"
    by (simp add: pinv3_def is_matrix_def)
  have l: "length [[[2]], [[3]], [[4::real]]] = 3" by simp
  have b: "2 \<le> (3::nat)" by simp
  have lt3: "{..<3::nat} = {0, 1, 2}" by auto
  have lt2: "{..<2::nat} = {0, 1}" by auto
  have lt1: "{..<1::nat} = {0}" by auto
  have mp: "moore_penrose (3 * (3 - 1) div 2) (3 - 1) ?A pinv3"
    using pinv3_moore_penrose by (simp add: design3)
  from rcc_trajectory[OF l b three_pixels_shift refl refl Pv P, of False]
  show ?thesis
  proof (elim exE conjE)
    fix D ty tx
    assume w1: "\<forall>l<3 - 1. \<forall>c<2. D ! l ! c = (\<Sum>k<3 * (3 - 1) div 2. pinv3 ! l ! k * ?R ! k ! c)"
      and w2: "rcc ?L [[[2]], [[3]], [[4]]] None False = Inr (ty, tx)"
      and w3: "length ty = 3" "length tx = 3" "ty ! 0 = 0" "tx ! 0 = 0"
      and w7: "\<forall>k<3. ty ! k = (\<Sum>l<k. D ! l ! 0) \<and> tx ! k = (\<Sum>l<k. D ! l ! 1)"
      and w8: "is_matrix (3 - 1) 2 D"
      and w9: "moore_penrose (3 * (3 - 1) div 2) (3 - 1) ?A pinv3 \<longrightarrow>
          (\<forall>c<2. \<forall>v. length v = 3 - 1 \<longrightarrow>
               residual ?A ?R c (map (\<lambda>row. row ! c) D) \<le> residual ?A ?R c v
             \<and> (residual ?A ?R c v = residual ?A ?R c (map (\<lambda>row. row ! c) D)
                  \<longrightarrow> v = map (\<lambda>row. row ! c) D))"
    have e: "D ! l ! c = (\<Sum>k<3. pinv3 ! l ! k * [[3 / 4, 1 / 4], [3 / 4, 1 / 4], [3 / 4, 1 / 4 :: real]] ! k ! c)"
      if "l < 2" "c < 2" for l c
      using w1 that by (simp add: pairs_3)
    have D: "D ! 0 ! 0 = 1 / 2" "D ! 1 ! 0 = 1 / 2" "D ! 0 ! 1 = 1 / 6" "D ! 1 ! 1 = 1 / 6"
      by (simp_all add: e lt3 pinv3_def)
    have "ty ! 1 = 1 / 2" "ty ! 2 = 1" "tx ! 1 = 1 / 6" "tx ! 2 = 1 / 3"
      using w7 D by (simp_all add: lt2 lt1)
    then have t: "ty ! 1 = 1 / 2 \<and> ty ! 2 = 1 \<and> tx ! 1 = 1 / 6 \<and> tx ! 2 = 1 / 3" by simp
    have "length D = 2" using w8 by (simp add: is_matrix_def)
    then have "D = [D ! 0, D ! 1]" by (rule list2_nth)
    then have "map (\<lambda>row. row ! 0) D = map (\<lambda>row. row ! 0) [D ! 0, D ! 1]" by (rule arg_cong)
    then have col: "map (\<lambda>row. row ! 0) D = [1 / 2, 1 / 2]" using D by simp
    have c0: "(0::nat) < 2" by simp
    have lv: "length [3 / 4, 0::real] = 3 - 1" by simp
    have "residual ?A ?R 0 (map (\<lambda>row. row ! 0) D) \<le> residual ?A ?R 0 [3 / 4, 0]"
      using w9[rule_format, OF mp c0 lv] by (rule conjunct1)
    then have ls: "residual [[1, 0], [1, 1], [0, 1]] [[3 / 4, 1 / 4], [3 / 4, 1 / 4], [3 / 4, 1 / 4]] 0 [1 / 2, 1 / 2]
           \<le> residual [[1, 0], [1, 1], [0, 1]] [[3 / 4, 1 / 4], [3 / 4, 1 / 4], [3 / 4, 1 / 4]] 0 [3 / 4, 0]"
      unfolding col design3 by (simp add: pairs_3)
    show ?thesis using w2 w3 t ls by blast
  qed
qed

section \<open>The design matrix of rcc\<close>

text \<open>
  Claim C2. For \<open>n \<ge> 2\<close> segments whose pairwise shifts are all obtained, the loop of
  \<open>rcc\<close> ends with a design matrix of \<open>n (n - 1) / 2\<close> rows and \<open>n - 1\<close> columns, and this is
  the matrix the solve receives. The pairs are enumerated in lexicographic order (the
  list \<open>pairs n\<close> holds exactly the pairs \<open>i < j < n\<close> and is strictly increasing); row \<open>k\<close>
  of the matrix has 1 in the columns \<open>i..j-1\<close> of the \<open>k\<close>-th pair \<open>(i, j)\<close> and 0 elsewhere,
  so it sums to \<open>j - i\<close>; and row \<open>k\<close> of \<open>rij\<close> is the shift measured for the \<open>k\<close>-th pair.
\<close>

theorem rcc_design_matrix:
  assumes n: "length segments = n" "2 \<le> n"
    and sh: "list_all (\<lambda>p. get_image_shift L (segments ! fst p) (segments ! snd p) 5 max_shift = Inr (sh p))
               (pairs n)"
  shows "\<exists>st. rcc_measure (\<lambda>i j. get_image_shift L (segments ! i) (segments ! j) 5 max_shift) callback n = Inr st
     \<and> rcc L segments max_shift callback = rcc_solve L st
     \<and> is_matrix (n * (n - 1) div 2) (n - 1) (dmat st)
     \<and> is_matrix (n * (n - 1) div 2) 2 (rij st)
     \<and> length (pairs n) = n * (n - 1) div 2
     \<and> set (pairs n) = {(i, j). i < j \<and> j < n}
     \<and> sorted_wrt lex_less (pairs n)
     \<and> (\<forall>k<length (pairs n). \<forall>c<n - 1.
           dmat st ! k ! c = (if fst (pairs n ! k) \<le> c \<and> c < snd (pairs n ! k) then 1 else 0))
     \<and> (\<forall>k<length (pairs n). sum_list (dmat st ! k) = real (snd (pairs n ! k) - fst (pairs n ! k)))
     \<and> (\<forall>k<length (pairs n). rij st ! k = [fst (sh (pairs n ! k)), snd (sh (pairs n ! k))])"
proof -
  let ?shift = "\<lambda>i j. get_image_shift L (segments ! i) (segments ! j) 5 max_shift"
  from rcc_measure_design[of n ?shift sh callback, OF n(2) sh]
  show ?thesis
  proof (elim exE conjE)
    fix st
    assume run: "rcc_measure ?shift callback n = Inr st"
      and a: "is_matrix (n * (n - 1) div 2) (n - 1) (dmat st)"
      and r: "is_matrix (n * (n - 1) div 2) 2 (rij st)"
      and l: "length (pairs n) = n * (n - 1) div 2"
      and s: "set (pairs n) = {(i, j). i < j \<and> j < n}"
      and o: "sorted_wrt lex_less (pairs n)"
      and e: "\<forall>k<length (pairs n). \<forall>c<n - 1.
           dmat st ! k ! c = (if fst (pairs n ! k) \<le> c \<and> c < snd (pairs n ! k) then 1 else 0)"
      and u: "\<forall>k<length (pairs n). sum_list (dmat st ! k) = real (snd (pairs n ! k) - fst (pairs n ! k))"
      and m: "\<forall>k<length (pairs n). rij st ! k = [fst (sh (pairs n ! k)), snd (sh (pairs n ! k))]"
    have "rcc L segments max_shift callback = rcc_solve L st"
      using run n(1) by (simp add: rcc_def)
    with run a r l s o e u m show ?thesis by (intro exI[of _ st] conjI)
  qed
qed

theorem rcc_design_matrix_witness:
  "\<exists>st. rcc_measure (\<lambda>i j. get_image_shift (exact_lib quarter_fit (\<lambda>_. Inr pinv3))
                               ([[[2]], [[3]], [[4]]] ! i) ([[[2]], [[3]], [[4]]] ! j) 5 None) True 3 = Inr st
     \<and> rcc (exact_lib quarter_fit (\<lambda>_. Inr pinv3)) [[[2]], [[3]], [[4]]] None True
          = rcc_solve (exact_lib quarter_fit (\<lambda>_. Inr pinv3)) st
     \<and> dmat st = [[1, 0], [1, 1], [0, 1]]
     \<and> rij st = [[3 / 4, 1 / 4], [3 / 4, 1 / 4], [3 / 4, 1 / 4]]"
proof -
  let ?L = "exact_lib quarter_fit (\<lambda>_. Inr pinv3)"
  let ?S = "[[[2]], [[3]], [[4::real]]]"
  have l: "length ?S = 3" by simp
  have b: "2 \<le> (3::nat)" by simp
  from rcc_design_matrix[OF l b three_pixels_shift[of "\<lambda>_. Inr pinv3"], where callback = True]
  show ?thesis
  proof (elim exE conjE)
    fix st
    assume st: "rcc_measure (\<lambda>i j. get_image_shift ?L (?S ! i) (?S ! j) 5 None) True 3 = Inr st"
      and rc: "rcc ?L ?S None True = rcc_solve ?L st"
      and d: "is_matrix (3 * (3 - 1) div 2) (3 - 1) (dmat st)"
      and lr: "is_matrix (3 * (3 - 1) div 2) 2 (rij st)"
      and e: "\<forall>k<length (pairs 3). \<forall>c<3 - 1.
           dmat st ! k ! c = (if fst (pairs 3 ! k) \<le> c \<and> c < snd (pairs 3 ! k) then 1 else 0)"
      and r: "\<forall>k<length (pairs 3). rij st ! k = [fst (3 / 4 :: real, 1 / 4 :: real), snd (3 / 4 :: real, 1 / 4 :: real)]"
    have ld: "length (dmat st) = 3" "length (dmat st ! 0) = 2" "length (dmat st ! 1) = 2" "length (dmat st ! 2) = 2"
      using d by (simp_all add: is_matrix_def list_all_length)
    have "dmat st ! 0 ! 0 = 1" "dmat st ! 0 ! 1 = 0" "dmat st ! 1 ! 0 = 1" "dmat st ! 1 ! 1 = 1"
      "dmat st ! 2 ! 0 = 0" "dmat st ! 2 ! 1 = 1"
      using e by (simp_all add: pairs_3)
    then have rows: "dmat st ! 0 = [1, 0]" "dmat st ! 1 = [1, 1]" "dmat st ! 2 = [0, 1]"
      using list2_nth[OF ld(2)] list2_nth[OF ld(3)] list2_nth[OF ld(4)] by simp_all
    have dm: "dmat st = [[1, 0], [1, 1], [0, 1]]"
      using list3_nth[OF ld(1)] rows by simp
    have lr3: "length (rij st) = 3" using lr by (simp add: is_matrix_def)
    have "rij st ! 0 = [3 / 4, 1 / 4]" "rij st ! 1 = [3 / 4, 1 / 4]" "rij st ! 2 = [3 / 4, 1 / 4]"
      using r by (simp_all add: pairs_3)
    then have rj: "rij st = [[3 / 4, 1 / 4], [3 / 4, 1 / 4], [3 / 4, 1 / 4]]"
      using list3_nth[OF lr3] by simp
    show ?thesis using st rc dm rj by (intro exI[of _ st] conjI)
  qed
qed

section \<open>The progress callback\<close>

text \<open>
  When every shift of the \<open>n (n - 1) / 2\<close> pairs is obtained, a callback is called with
  \<open>0, 1, \<dots>, n (n - 1) / 2\<close> in this order: once before the loop and once after every pair.
  The counts increase and end at the number of pairs. Without a callback nothing is
  recorded.
\<close>

theorem rcc_progress_calls:
  assumes n: "1 \<le> n"
    and sh: "list_all (\<lambda>p. shift (fst p) (snd p) = Inr (sh p)) (pairs n)"
  shows "\<exists>st st'. rcc_measure shift True n = Inr st
     \<and> calls st = [0..<n * (n - 1) div 2 + 1]
     \<and> sorted (calls st) \<and> last (calls st) = n * (n - 1) div 2
     \<and> flag st = n * (n - 1) div 2
     \<and> rcc_measure shift False n = Inr st' \<and> calls st' = []"
proof -
  let ?m = "n * (n - 1) div 2"
  let ?st = "\<lambda>cb. \<lparr>rij = map (\<lambda>p. [fst (sh p), snd (sh p)]) (pairs n),
          dmat = map (design_row n) (pairs n), flag = ?m,
          calls = (if cb then [0..<?m + 1] else [])\<rparr>"
  have t: "rcc_measure shift True n = Inr (?st True)" using n sh by (rule rcc_measure_ok)
  have f: "rcc_measure shift False n = Inr (?st False)" using n sh by (rule rcc_measure_ok)
  have s: "sorted [0..<?m + 1]" by (rule sorted_upt)
  have l: "last [0..<?m + 1] = ?m" by simp
  show ?thesis
    using t f s l by (intro exI[of _ "?st True"] exI[of _ "?st False"]) simp
qed

theorem rcc_progress_calls_witness:
  "\<exists>st. rcc_measure (\<lambda>i j. Inr (real i - real j, real j)) True 3 = Inr st
     \<and> calls st = [0, 1, 2, 3]"
proof -
  have "list_all (\<lambda>p. (\<lambda>i j. Inr (real i - real j, real j)) (fst p) (snd p)
                        = Inr ((\<lambda>p. (real (fst p) - real (snd p), real (snd p))) p)) (pairs 3)"
    by (simp add: pairs_3)
  moreover have "1 \<le> (3::nat)" by simp
  ultimately have "\<exists>st st'. rcc_measure (\<lambda>i j. Inr (real i - real j, real j)) True 3 = Inr st
     \<and> calls st = [0..<3 * (3 - 1) div 2 + 1]
     \<and> sorted (calls st) \<and> last (calls st) = 3 * (3 - 1) div 2
     \<and> flag st = 3 * (3 - 1) div 2
     \<and> rcc_measure (\<lambda>i j. Inr (real i - real j, real j)) False 3 = Inr st' \<and> calls st' = []"
    by (intro rcc_progress_calls)
  moreover have "[0..<3 * (3 - 1) div 2 + 1] = [0, 1, 2, 3::nat]"
    by (simp add: upt_rec)
  ultimately show ?thesis by auto
qed

end
